theory Spec2Isabelle
  imports Complex_Main
begin

section \<open>The chord audio engine\<close>

text \<open>
  The repository holds the engine twice: \<^verbatim>\<open>src/services/audioEngine.ts\<close> (the file the
  application imports; its text ends inside \<^verbatim>\<open>startChord\<close>, at line 277) and an earlier,
  complete text of the same class, \<^verbatim>\<open>src/unnamed/part_001\<close>. Definitions that differ
  between the two carry the suffix \<open>_ts\<close> or \<open>_p1\<close>.

  Numbers of the program (clock times, gains, frequencies) are JavaScript doubles; they
  are modelled as real numbers, so rounding, overflow and underflow are outside the model.
\<close>

subsection \<open>Instruments and timbres (src/types.ts)\<close>

datatype InstrumentType = Piano | Guitar | Violin

datatype PianoTimbre = Grand | Electric | HonkyTonk

datatype source_file = AudioEngineTs | Part001

subsection \<open>The Web Audio calls\<close>

text \<open>
  The engine acts on the browser only through Web Audio calls. A node is identified by
  the order of its creation; every call the program makes is appended to a log, in
  program order, with its arguments.
\<close>

type_synonym node = nat

datatype OscillatorType = Sine | Triangle | Sawtooth

datatype BiquadFilterType = Lowpass | Bandpass

datatype AudioParam = Gain node | Frequency node | Detune node | QFactor node

datatype target = Node node | Param AudioParam | Destination

datatype call =
    NewAudioContext
  | Resume
  | CreateGain node
  | CreateOscillator node
  | CreateBiquadFilter node
  | CreateConvolver node
  | SetBuffer node "real list" "real list"
  | SetOscillatorType node OscillatorType
  | SetFilterType node BiquadFilterType
  | SetValue AudioParam real
  | SetValueAtTime AudioParam real real
  | HoldValueAtTime AudioParam real
  | LinearRampToValueAtTime AudioParam real real
  | ExponentialRampToValueAtTime AudioParam real real
  | CancelScheduledValues AudioParam real
  | Connect node target
  | Disconnect node
  | Start node real
  | Stop node real

text \<open>
  \<open>SetValue p v\<close> is the assignment \<^verbatim>\<open>p.value = v\<close>; \<open>SetValueAtTime p v t\<close> is
  \<^verbatim>\<open>p.setValueAtTime(v, t)\<close>; \<open>HoldValueAtTime p t\<close> is
  \<^verbatim>\<open>p.setValueAtTime(p.value, t)\<close>, whose first argument is read from the running audio
  graph; \<open>SetBuffer n l r\<close> assigns a two-channel buffer to a convolver.
\<close>

subsection \<open>Engine state\<close>

datatype AudioContextState = Suspended | Running

text \<open>
  The sample rate of an audio context, in frames per second: a whole number, positive and
  below \<open>2^31\<close> (audio devices run at 8 kHz to 768 kHz). \<open>hz44100\<close> is the usual rate.
\<close>

typedef hertz = "{r :: nat. 0 < r \<and> r < 2 ^ 31}"
  by (rule exI [of _ 44100]) simp

setup_lifting type_definition_hertz

lift_definition hz44100 :: hertz is 44100
  by simp

record AudioContext =
  state :: AudioContextState
  currentTime :: real
  sampleRate :: hertz

text \<open>The one exception the engine can meet: \<^verbatim>\<open>createBuffer\<close> refuses a buffer of no frames.\<close>

datatype error = NotSupportedError

text \<open>
  An entry of \<^verbatim>\<open>activeNodes\<close> is a pair of closures \<^verbatim>\<open>{stop, release}\<close>. The closures
  are represented by the nodes they capture; \<open>stop\<close> and \<open>release\<close> below give the calls
  each closure makes.
\<close>

datatype handle =
    LfoCleanup node
  | NoteCleanup node node
  | VoiceCleanup "node list" node

record AudioEngine =
  ctx :: "AudioContext option"
  masterGain :: "node option"
  reverbNode :: "node option"
  reverbGain :: "node option"
  activeNodes :: "handle list"
  calls :: "call list"
  nextNode :: node
  draws :: nat
  timers :: "nat list"
  clock :: nat

text \<open>
  The first five fields are the fields of the class (part_001 has no reverb fields; they
  stay \<open>None\<close> there). The others are the browser's side: \<open>calls\<close> is the log of Web
  Audio calls, \<open>nextNode\<close> the number of nodes created so far, \<open>draws\<close> the number of
  \<^verbatim>\<open>Math.random()\<close> results consumed, \<open>timers\<close> the deadlines (in milliseconds) of the
  pending \<^verbatim>\<open>setTimeout\<close> callbacks, and \<open>clock\<close> the time in milliseconds.
\<close>

record Browser =
  random :: "nat \<Rightarrow> real"
  newContext :: AudioContext

text \<open>
  What the program reads from the browser: \<open>random w k\<close> is the result of the \<open>k\<close>-th
  call of \<^verbatim>\<open>Math.random()\<close>, and \<open>newContext w\<close> is the context that
  \<^verbatim>\<open>new AudioContext()\<close> returns.
\<close>

definition newEngine :: AudioEngine where
  "newEngine = \<lparr> ctx = None, masterGain = None, reverbNode = None, reverbGain = None,
     activeNodes = [], calls = [], nextNode = 0, draws = 0, timers = [], clock = 0 \<rparr>"

text \<open>A browser for concrete runs: every \<^verbatim>\<open>Math.random()\<close> returns \<open>r\<close>, and a new
  context is suspended, at time 0, with the given sample rate.\<close>

definition constBrowser :: "real \<Rightarrow> hertz \<Rightarrow> Browser" where
  "constBrowser r rate =
     \<lparr> random = (\<lambda>k. r), newContext = \<lparr> state = Suspended, currentTime = 0, sampleRate = rate \<rparr> \<rparr>"

subsection \<open>Pitch conversion\<close>

text \<open>
  \<^verbatim>\<open>midiToFreq(midi) { return 440 * Math.pow(2, (midi - 69) / 12); }\<close>, the same text in
  both files. The base of the power is the positive constant 2, where \<open>powr\<close> is the
  real power function.
\<close>

definition midiToFreq :: "int \<Rightarrow> real" where
  "midiToFreq midi = 440 * 2 powr ((real_of_int midi - 69) / 12)"

subsection \<open>The reverb impulse (src/services/audioEngine.ts, l.41-57)\<close>

text \<open>
  \<^verbatim>\<open>this.ctx!.createBuffer(2, length, rate)\<close>, by the Web Audio interface: \<^verbatim>\<open>length\<close> is
  converted to an unsigned long (truncated towards zero, modulo \<open>2^32\<close>); a buffer of no
  frames is refused with \<^verbatim>\<open>NotSupportedError\<close>; otherwise each of the two channels is a
  \<^verbatim>\<open>Float32Array\<close> of that many zeros (its rounding to single precision is left out, as
  all rounding is).
\<close>

definition createBuffer :: "real \<Rightarrow> error + real list \<times> real list" where
  "createBuffer len =
     (let frames = nat ((if 0 \<le> len then \<lfloor>len\<rfloor> else \<lceil>len\<rceil>) mod 2 ^ 32)
      in if frames = 0 then Inl NotSupportedError
         else Inr (replicate frames 0, replicate frames 0))"

text \<open>
  The loop \<^verbatim>\<open>for (let i = 0; i < length; i++)\<close> draws two random numbers per sample, the
  left channel's first. \<open>k\<close> is the index of the next \<^verbatim>\<open>Math.random()\<close> result. The
  base \<open>1 - i / length\<close> of \<^verbatim>\<open>Math.pow\<close> is positive inside the loop. An assignment
  \<^verbatim>\<open>left[i] = v\<close> beyond the end of the array changes nothing, as \<open>left[i := v]\<close> does.
\<close>

function fillImpulse ::
  "(nat \<Rightarrow> real) \<Rightarrow> real \<Rightarrow> real \<Rightarrow> nat \<Rightarrow> nat \<Rightarrow> real list \<Rightarrow> real list
    \<Rightarrow> real list \<times> real list \<times> nat" where
  "fillImpulse rnd len decay i k left right =
     (if real i < len then
        (let n = real i / len;
             vol = (1 - n) powr decay
         in fillImpulse rnd len decay (i + 1) (k + 2)
              (left[i := (rnd k * 2 - 1) * vol])
              (right[i := (rnd (k + 1) * 2 - 1) * vol]))
      else (left, right, k))"
  by pat_completeness auto
termination
proof (relation "measure (\<lambda>(rnd, len, decay, i, k, left, right). nat \<lceil>len\<rceil> - i)")
  show "wf (measure (\<lambda>(rnd, len, decay, i, k, left, right). nat \<lceil>len\<rceil> - i))"
    by simp
next
  fix rnd :: "nat \<Rightarrow> real" and len decay :: real and i k :: nat
    and left right :: "real list" and x xa
  assume "real i < len"
  then have "int i < \<lceil>len\<rceil>"
    by (simp add: less_ceiling_iff)
  then have "i < nat \<lceil>len\<rceil>"
    by linarith
  then show "((rnd, len, decay, i + 1, k + 2, left[i := (rnd k * 2 - 1) * xa],
               right[i := (rnd (k + 1) * 2 - 1) * xa]),
              rnd, len, decay, i, k, left, right)
             \<in> measure (\<lambda>(rnd, len, decay, i, k, left, right). nat \<lceil>len\<rceil> - i)"
    by simp
qed

declare fillImpulse.simps [simp del]

text \<open>
  \<^verbatim>\<open>generateReverbImpulse(duration, decay)\<close>: the two channels after the loop and the index
  of the next random result, or the exception of \<^verbatim>\<open>createBuffer\<close>.
\<close>

definition generateReverbImpulse ::
  "AudioContext \<Rightarrow> (nat \<Rightarrow> real) \<Rightarrow> nat \<Rightarrow> real \<Rightarrow> real
    \<Rightarrow> error + real list \<times> real list \<times> nat" where
  "generateReverbImpulse c rnd k duration decay =
     (let rate = real (Rep_hertz (sampleRate c));
          len = rate * duration
      in case createBuffer len of
           Inl e \<Rightarrow> Inl e
         | Inr (left, right) \<Rightarrow> Inr (fillImpulse rnd len decay 0 k left right))"

subsection \<open>Lazy initialisation\<close>

text \<open>
  \<^verbatim>\<open>if (this.ctx.state === 'suspended') { this.ctx.resume(); }\<close>, the end of \<^verbatim>\<open>init\<close>
  in both files. The context is taken to be running once \<^verbatim>\<open>resume()\<close> has been called,
  and \<^verbatim>\<open>new AudioContext()\<close> to succeed.
\<close>

definition resumeIfSuspended :: "AudioEngine \<Rightarrow> AudioEngine" where
  "resumeIfSuspended s =
     (case ctx s of
        None \<Rightarrow> s
      | Some c \<Rightarrow>
          if state c = Suspended
          then s\<lparr> ctx := Some (c\<lparr> state := Running \<rparr>), calls := calls s @ [Resume] \<rparr>
          else s)"

text \<open>
  src/services/audioEngine.ts, l.14-39. The length of the impulse is twice the sample
  rate, a whole number that is at least 2, so \<^verbatim>\<open>createBuffer\<close> does not raise here; the
  first branch, never taken, is the state in which the exception would leave the engine.
\<close>

definition init_ts :: "Browser \<Rightarrow> AudioEngine \<Rightarrow> AudioEngine" where
  "init_ts w s =
     (if ctx s = None then
        (let c = newContext w;
             master = nextNode s;
             reverb = nextNode s + 1;
             send = nextNode s + 2
         in case generateReverbImpulse c (random w) (draws s) 2 2 of
              Inl e \<Rightarrow>
                s\<lparr> ctx := Some c,
                    masterGain := Some master,
                    reverbNode := Some reverb,
                    nextNode := nextNode s + 2,
                    calls := calls s @
                      [NewAudioContext,
                       CreateGain master, SetValue (Gain master) 0.3,
                       CreateConvolver reverb] \<rparr>
            | Inr (left, right, k) \<Rightarrow>
                resumeIfSuspended
                  (s\<lparr> ctx := Some c,
                       masterGain := Some master,
                       reverbNode := Some reverb,
                       reverbGain := Some send,
                       nextNode := nextNode s + 3,
                       draws := k,
                       calls := calls s @
                         [NewAudioContext,
                          CreateGain master, SetValue (Gain master) 0.3,
                          CreateConvolver reverb, SetBuffer reverb left right,
                          CreateGain send, SetValue (Gain send) 0.35,
                          Connect master Destination,
                          Connect master (Node send),
                          Connect send (Node reverb),
                          Connect reverb Destination] \<rparr>))
      else resumeIfSuspended s)"

text \<open>src/unnamed/part_001, l.12-22.\<close>

definition init_p1 :: "Browser \<Rightarrow> AudioEngine \<Rightarrow> AudioEngine" where
  "init_p1 w s =
     resumeIfSuspended
       (if ctx s = None then
          (let master = nextNode s
           in s\<lparr> ctx := Some (newContext w),
                 masterGain := Some master,
                 nextNode := nextNode s + 1,
                 calls := calls s @
                   [NewAudioContext,
                    CreateGain master, SetValue (Gain master) 0.4,
                    Connect master Destination] \<rparr>)
        else s)"

fun init :: "source_file \<Rightarrow> Browser \<Rightarrow> AudioEngine \<Rightarrow> AudioEngine" where
  "init AudioEngineTs = init_ts"
| "init Part001 = init_p1"

subsection \<open>Cleanup handles\<close>

text \<open>
  Modelled from the spec: the cleanup handlers of src/services/audioEngine.ts, whose text
  ends at l.277 (\<^verbatim>\<open>// Cleanup Handlers\<close>). By the spec (section 3), \<^verbatim>\<open>stop(atTime)\<close>
  hard-stops all oscillators of the Voice at the given clock time, and
  \<^verbatim>\<open>release(atTime)\<close> begins an amplitude fade-out and then schedules \<^verbatim>\<open>stop\<close>, about
  0.3 s later (section 4.5). The handlers close over \<^verbatim>\<open>noteOscillators\<close> and
  \<^verbatim>\<open>voiceGain\<close>; the fade-out is written with the calls src/unnamed/part_001 uses.
\<close>

definition stopVoice :: "node list \<Rightarrow> real \<Rightarrow> call list" where
  "stopVoice noteOscillators t = map (\<lambda>osc. Stop osc t) noteOscillators"

definition releaseVoice :: "node list \<Rightarrow> node \<Rightarrow> real \<Rightarrow> call list" where
  "releaseVoice noteOscillators voiceGain t =
     [CancelScheduledValues (Gain voiceGain) t,
      HoldValueAtTime (Gain voiceGain) t,
      ExponentialRampToValueAtTime (Gain voiceGain) 0.001 (t + 0.3)]
     @ stopVoice noteOscillators (t + 0.3)"

text \<open>
  src/unnamed/part_001 registers, for a Violin note, the entry
  \<^verbatim>\<open>{ stop: (t) => { lfo.stop(t); }, release: () => {} }\<close> (l.139-142), here
  \<open>LfoCleanup lfo\<close>, and for every note the entry of l.150-159, here
  \<open>NoteCleanup osc gain\<close>, whose \<^verbatim>\<open>release\<close> cancels the gain automation, holds the
  current value, ramps to 0.001 within 0.3 s and stops the oscillator at \<open>t + 0.35\<close>.
  \<open>VoiceCleanup noteOscillators voiceGain\<close> is the entry of src/services/audioEngine.ts.
\<close>

fun stop :: "handle \<Rightarrow> real \<Rightarrow> call list" where
  "stop (LfoCleanup lfo) t = [Stop lfo t]"
| "stop (NoteCleanup osc gain) t = [Stop osc t]"
| "stop (VoiceCleanup noteOscillators voiceGain) t = stopVoice noteOscillators t"

fun release :: "handle \<Rightarrow> real \<Rightarrow> call list" where
  "release (LfoCleanup lfo) t = []"
| "release (NoteCleanup osc gain) t =
     [CancelScheduledValues (Gain gain) t,
      HoldValueAtTime (Gain gain) t,
      ExponentialRampToValueAtTime (Gain gain) 0.001 (t + 0.3),
      Stop osc (t + 0.35)]"
| "release (VoiceCleanup noteOscillators voiceGain) t = releaseVoice noteOscillators voiceGain t"

subsection \<open>stopChord\<close>

text \<open>
  src/unnamed/part_001, l.163-172. The text of src/services/audioEngine.ts ends before its
  \<^verbatim>\<open>stopChord\<close>; the spec (section 4.5) describes the same behaviour, and the one
  definition serves both files.
\<close>

definition stopChord :: "AudioEngine \<Rightarrow> AudioEngine" where
  "stopChord s =
     (case ctx s of
        None \<Rightarrow> s
      | Some c \<Rightarrow>
          if activeNodes s = [] then s
          else
            (let now = currentTime c
             in s\<lparr> calls := calls s @ concat (map (\<lambda>node. release node now) (activeNodes s)),
                   activeNodes := [] \<rparr>))"

subsection \<open>Building one note\<close>

text \<open>
  What one run of the \<^verbatim>\<open>forEach\<close> callback does: the calls it makes, the entries it
  pushes to \<^verbatim>\<open>activeNodes\<close>, the number of nodes it creates and the number of
  \<^verbatim>\<open>Math.random()\<close> results it consumes.
\<close>

record voice =
  vCalls :: "call list"
  vHandles :: "handle list"
  vNodes :: nat
  vDraws :: nat

definition stagger_p1 :: "InstrumentType \<Rightarrow> nat \<Rightarrow> real" where
  "stagger_p1 instrument index = (if instrument = Piano then 0 else real index * 0.03)"

definition stagger_ts :: "InstrumentType \<Rightarrow> nat \<Rightarrow> real" where
  "stagger_ts instrument index = (if instrument = Piano then 0 else real index * 0.04)"

text \<open>
  src/unnamed/part_001, l.50-144: the \<^verbatim>\<open>switch (instrument)\<close>. \<open>free\<close> is the first unused
  node, \<open>rnd k\<close> the next \<^verbatim>\<open>Math.random()\<close> result.
\<close>

definition tone_p1 ::
  "(nat \<Rightarrow> real) \<Rightarrow> nat \<Rightarrow> InstrumentType \<Rightarrow> PianoTimbre \<Rightarrow> real \<Rightarrow> real
    \<Rightarrow> node \<Rightarrow> node \<Rightarrow> node \<Rightarrow> voice" where
  "tone_p1 rnd k instrument timbre freq startTime osc gain free =
     (case instrument of
        Piano \<Rightarrow>
          if timbre = Electric then
            \<lparr> vCalls =
                [SetOscillatorType osc Sine,
                 SetValueAtTime (Gain gain) 0 startTime,
                 LinearRampToValueAtTime (Gain gain) 0.6 (startTime + 0.02),
                 ExponentialRampToValueAtTime (Gain gain) 0.3 (startTime + 1.5),
                 Connect osc (Node gain)],
              vHandles = [], vNodes = 0, vDraws = 0 \<rparr>
          else if timbre = HonkyTonk then
            (let filter = free
             in \<lparr> vCalls =
                  [SetOscillatorType osc Sawtooth,
                   SetValue (Detune osc) (rnd k * 10 - 5),
                   CreateBiquadFilter filter,
                   SetFilterType filter Lowpass,
                   SetValue (Frequency filter) (freq * 3),
                   Connect osc (Node filter),
                   Connect filter (Node gain),
                   SetValueAtTime (Gain gain) 0 startTime,
                   LinearRampToValueAtTime (Gain gain) 0.5 (startTime + 0.01),
                   ExponentialRampToValueAtTime (Gain gain) 0.01 (startTime + 0.6)],
                  vHandles = [], vNodes = 1, vDraws = 1 \<rparr>)
          else
            (let filter = free
             in \<lparr> vCalls =
                  [SetOscillatorType osc Triangle,
                   CreateBiquadFilter filter,
                   SetFilterType filter Lowpass,
                   SetValueAtTime (Frequency filter) (freq * 1) startTime,
                   ExponentialRampToValueAtTime (Frequency filter) (freq * 6) (startTime + 0.02),
                   ExponentialRampToValueAtTime (Frequency filter) (freq * 2) (startTime + 0.5),
                   Connect osc (Node filter),
                   Connect filter (Node gain),
                   SetValueAtTime (Gain gain) 0 startTime,
                   LinearRampToValueAtTime (Gain gain) 0.8 (startTime + 0.015),
                   ExponentialRampToValueAtTime (Gain gain) 0.1 (startTime + 3.0)],
                  vHandles = [], vNodes = 1, vDraws = 0 \<rparr>)
      | Guitar \<Rightarrow>
          (let gFilter = free
           in \<lparr> vCalls =
                [SetOscillatorType osc Sawtooth,
                 CreateBiquadFilter gFilter,
                 SetFilterType gFilter Lowpass,
                 SetValueAtTime (Frequency gFilter) 3000 startTime,
                 ExponentialRampToValueAtTime (Frequency gFilter) 500 (startTime + 1.0),
                 Connect osc (Node gFilter),
                 Connect gFilter (Node gain),
                 SetValueAtTime (Gain gain) 0 startTime,
                 LinearRampToValueAtTime (Gain gain) 0.8 (startTime + 0.05),
                 ExponentialRampToValueAtTime (Gain gain) 0.3 (startTime + 2.0)],
                vHandles = [], vNodes = 1, vDraws = 0 \<rparr>)
      | Violin \<Rightarrow>
          (let lfo = free;
               lfoGain = free + 1
           in \<lparr> vCalls =
                [SetOscillatorType osc Sawtooth,
                 CreateOscillator lfo,
                 SetOscillatorType lfo Sine,
                 SetValue (Frequency lfo) 6,
                 CreateGain lfoGain,
                 SetValue (Gain lfoGain) 4,
                 Connect lfo (Node lfoGain),
                 Connect lfoGain (Param (Frequency osc)),
                 Start lfo startTime,
                 Connect osc (Node gain),
                 SetValueAtTime (Gain gain) 0 startTime,
                 LinearRampToValueAtTime (Gain gain) 0.7 (startTime + 0.5)],
                vHandles = [LfoCleanup lfo], vNodes = 2, vDraws = 0 \<rparr>))"

text \<open>src/unnamed/part_001, l.35-160: the body of the \<^verbatim>\<open>forEach\<close> callback.\<close>

definition noteVoice_p1 ::
  "(nat \<Rightarrow> real) \<Rightarrow> nat \<Rightarrow> node \<Rightarrow> real \<Rightarrow> InstrumentType \<Rightarrow> PianoTimbre
    \<Rightarrow> int \<Rightarrow> nat \<Rightarrow> node \<Rightarrow> voice" where
  "noteVoice_p1 rnd k master now instrument timbre note index free =
     (let freq = midiToFreq note;
          stagger = stagger_p1 instrument index;
          startTime = now + stagger;
          osc = free;
          gain = free + 1;
          tone = tone_p1 rnd k instrument timbre freq startTime osc gain (free + 2)
      in \<lparr> vCalls =
             [CreateOscillator osc, CreateGain gain, SetValue (Frequency osc) freq]
             @ vCalls tone
             @ [Connect gain (Node master), Start osc startTime],
           vHandles = vHandles tone @ [NoteCleanup osc gain],
           vNodes = 2 + vNodes tone,
           vDraws = vDraws tone \<rparr>)"

text \<open>
  src/services/audioEngine.ts, l.84-274: the synthesis recipes. Each gives the calls it
  makes, the list \<^verbatim>\<open>noteOscillators\<close> it fills and the number of nodes it creates.
\<close>

definition recipe_ts ::
  "InstrumentType \<Rightarrow> PianoTimbre \<Rightarrow> real \<Rightarrow> real \<Rightarrow> node \<Rightarrow> node
    \<Rightarrow> call list \<times> node list \<times> nat" where
  "recipe_ts instrument timbre freq startTime voiceGain free =
     (if instrument = Piano then
        (if timbre = Electric then
           (let osc1 = free; osc2 = free + 1; osc1Gain = free + 2; osc2Gain = free + 3;
                lfo = free + 4; lfoGain = free + 5; tremoloNode = free + 6
            in ([CreateOscillator osc1,
                 SetOscillatorType osc1 Sine,
                 SetValue (Frequency osc1) freq,
                 CreateOscillator osc2,
                 SetOscillatorType osc2 Triangle,
                 SetValue (Frequency osc2) freq,
                 CreateGain osc1Gain,
                 SetValue (Gain osc1Gain) 0.8,
                 CreateGain osc2Gain,
                 SetValue (Gain osc2Gain) 0.3,
                 Connect osc1 (Node osc1Gain),
                 Connect osc2 (Node osc2Gain),
                 Connect osc1Gain (Node voiceGain),
                 Connect osc2Gain (Node voiceGain),
                 CreateOscillator lfo,
                 SetValue (Frequency lfo) 5,
                 CreateGain lfoGain,
                 SetValue (Gain lfoGain) 0.15,
                 CreateGain tremoloNode,
                 SetValue (Gain tremoloNode) 1.0,
                 Connect lfo (Node lfoGain),
                 Connect lfoGain (Param (Gain tremoloNode)),
                 Disconnect osc1Gain,
                 Disconnect osc2Gain,
                 Connect osc1Gain (Node tremoloNode),
                 Connect osc2Gain (Node tremoloNode),
                 Connect tremoloNode (Node voiceGain),
                 Start lfo startTime,
                 Start osc1 startTime,
                 Start osc2 startTime,
                 SetValueAtTime (Gain voiceGain) 0 startTime,
                 LinearRampToValueAtTime (Gain voiceGain) 0.6 (startTime + 0.05),
                 ExponentialRampToValueAtTime (Gain voiceGain) 0.4 (startTime + 1.0)],
                [osc1, osc2, lfo], 7))
         else if timbre = HonkyTonk then
           (let osc1 = free; osc2 = free + 1; filter = free + 2
            in ([CreateOscillator osc1,
                 SetOscillatorType osc1 Sawtooth,
                 SetValue (Frequency osc1) freq,
                 CreateOscillator osc2,
                 SetOscillatorType osc2 Sawtooth,
                 SetValue (Frequency osc2) freq,
                 SetValue (Detune osc2) 15,
                 CreateBiquadFilter filter,
                 SetFilterType filter Lowpass,
                 SetValue (Frequency filter) (freq * 3),
                 Connect osc1 (Node filter),
                 Connect osc2 (Node filter),
                 Connect filter (Node voiceGain),
                 Start osc1 startTime,
                 Start osc2 startTime,
                 SetValueAtTime (Gain voiceGain) 0 startTime,
                 LinearRampToValueAtTime (Gain voiceGain) 0.5 (startTime + 0.02),
                 ExponentialRampToValueAtTime (Gain voiceGain) 0.01 (startTime + 0.8)],
                [osc1, osc2], 3))
         else
           (let osc1 = free; osc2 = free + 1; osc3 = free + 2; filter = free + 3;
                mainOscGain = free + 4; subOscGain = free + 5
            in ([CreateOscillator osc1,
                 SetOscillatorType osc1 Triangle,
                 SetValue (Frequency osc1) freq,
                 CreateOscillator osc2,
                 SetOscillatorType osc2 Triangle,
                 SetValue (Frequency osc2) freq,
                 SetValue (Detune osc2) 6,
                 CreateOscillator osc3,
                 SetOscillatorType osc3 Sine,
                 SetValue (Frequency osc3) freq,
                 CreateBiquadFilter filter,
                 SetFilterType filter Lowpass,
                 SetValueAtTime (Frequency filter) (freq * 6) startTime,
                 ExponentialRampToValueAtTime (Frequency filter) (freq * 1.5) (startTime + 0.5),
                 CreateGain mainOscGain,
                 SetValue (Gain mainOscGain) 0.6,
                 CreateGain subOscGain,
                 SetValue (Gain subOscGain) 0.4,
                 Connect osc1 (Node mainOscGain),
                 Connect osc2 (Node mainOscGain),
                 Connect osc3 (Node subOscGain),
                 Connect mainOscGain (Node filter),
                 Connect subOscGain (Node voiceGain),
                 Connect filter (Node voiceGain),
                 Start osc1 startTime,
                 Start osc2 startTime,
                 Start osc3 startTime,
                 SetValueAtTime (Gain voiceGain) 0 startTime,
                 LinearRampToValueAtTime (Gain voiceGain) 0.7 (startTime + 0.02),
                 ExponentialRampToValueAtTime (Gain voiceGain) 0.4 (startTime + 0.3),
                 ExponentialRampToValueAtTime (Gain voiceGain) 0.01 (startTime + 4.0)],
                [osc1, osc2, osc3], 6)))
      else if instrument = Guitar then
        (let osc = free; filter = free + 1
         in ([CreateOscillator osc,
              SetOscillatorType osc Sawtooth,
              SetValue (Frequency osc) freq,
              CreateBiquadFilter filter,
              SetFilterType filter Lowpass,
              SetValueAtTime (Frequency filter) 3000 startTime,
              ExponentialRampToValueAtTime (Frequency filter) 500 (startTime + 0.5),
              Connect osc (Node filter),
              Connect filter (Node voiceGain),
              Start osc startTime,
              SetValueAtTime (Gain voiceGain) 0 startTime,
              LinearRampToValueAtTime (Gain voiceGain) 0.6 (startTime + 0.04),
              ExponentialRampToValueAtTime (Gain voiceGain) 0.1 (startTime + 2.0)],
             [osc], 2))
      else
        (let osc = free; lfo = free + 1; lfoGain = free + 2; filter = free + 3;
             sawGain = free + 4
         in ([CreateOscillator osc,
              SetOscillatorType osc Sawtooth,
              SetValue (Frequency osc) freq,
              CreateOscillator lfo,
              SetValue (Frequency lfo) 6.0,
              CreateGain lfoGain,
              SetValue (Gain lfoGain) 5.0,
              Connect lfo (Node lfoGain),
              Connect lfoGain (Param (Frequency osc)),
              Start lfo startTime,
              CreateBiquadFilter filter,
              SetFilterType filter Bandpass,
              SetValue (Frequency filter) 1500,
              SetValue (QFactor filter) 0.5,
              CreateGain sawGain,
              SetValue (Gain sawGain) 0.4,
              Connect osc (Node sawGain),
              Connect sawGain (Node voiceGain),
              Connect osc (Node filter),
              Connect filter (Node voiceGain),
              Start osc startTime,
              SetValueAtTime (Gain voiceGain) 0 startTime,
              LinearRampToValueAtTime (Gain voiceGain) 0.6 (startTime + 0.4)],
             [osc, lfo], 5)))"

text \<open>
  Modelled from the spec: the registration of a Voice in src/services/audioEngine.ts,
  which lies beyond the end of its text (l.277). By the spec (section 4.5), \<^verbatim>\<open>startChord\<close>
  builds one Voice per note and registers all resulting Voices: one entry per note,
  with the handlers above.
\<close>

definition registerVoice :: "node list \<Rightarrow> node \<Rightarrow> handle list" where
  "registerVoice noteOscillators voiceGain = [VoiceCleanup noteOscillators voiceGain]"

text \<open>src/services/audioEngine.ts, l.69-277: the body of the \<^verbatim>\<open>forEach\<close> callback.\<close>

definition noteVoice_ts ::
  "node \<Rightarrow> real \<Rightarrow> InstrumentType \<Rightarrow> PianoTimbre \<Rightarrow> int \<Rightarrow> nat \<Rightarrow> node \<Rightarrow> voice" where
  "noteVoice_ts master now instrument timbre note index free =
     (let freq = midiToFreq note;
          stagger = stagger_ts instrument index;
          startTime = now + stagger;
          voiceGain = free;
          (recipe, noteOscillators, n) =
             recipe_ts instrument timbre freq startTime voiceGain (free + 1)
      in \<lparr> vCalls = [CreateGain voiceGain, Connect voiceGain (Node master)] @ recipe,
           vHandles = registerVoice noteOscillators voiceGain,
           vNodes = 1 + n,
           vDraws = 0 \<rparr>)"

fun noteVoice ::
  "source_file \<Rightarrow> (nat \<Rightarrow> real) \<Rightarrow> nat \<Rightarrow> node \<Rightarrow> real \<Rightarrow> InstrumentType \<Rightarrow> PianoTimbre
    \<Rightarrow> int \<Rightarrow> nat \<Rightarrow> node \<Rightarrow> voice" where
  "noteVoice AudioEngineTs rnd k master now instrument timbre note index free =
     noteVoice_ts master now instrument timbre note index free"
| "noteVoice Part001 rnd k master now instrument timbre note index free =
     noteVoice_p1 rnd k master now instrument timbre note index free"

subsection \<open>startChord\<close>

text \<open>
  \<^verbatim>\<open>midiNotes.forEach((note, index) => ...)\<close>: the voices of the notes from \<open>index\<close> on,
  each built with the nodes and random numbers the earlier ones left.
\<close>

fun forEachNote ::
  "source_file \<Rightarrow> (nat \<Rightarrow> real) \<Rightarrow> node \<Rightarrow> real \<Rightarrow> InstrumentType \<Rightarrow> PianoTimbre
    \<Rightarrow> int list \<Rightarrow> nat \<Rightarrow> nat \<Rightarrow> node \<Rightarrow> voice list" where
  "forEachNote f rnd master now instrument timbre [] index k free = []"
| "forEachNote f rnd master now instrument timbre (note # midiNotes) index k free =
     (let v = noteVoice f rnd k master now instrument timbre note index free
      in v # forEachNote f rnd master now instrument timbre midiNotes (index + 1)
               (k + vDraws v) (free + vNodes v))"

definition addVoice :: "voice \<Rightarrow> AudioEngine \<Rightarrow> AudioEngine" where
  "addVoice v s =
     s\<lparr> calls := calls s @ vCalls v,
         activeNodes := activeNodes s @ vHandles v,
         nextNode := nextNode s + vNodes v,
         draws := draws s + vDraws v \<rparr>"

text \<open>
  src/services/audioEngine.ts, l.63-67, and src/unnamed/part_001, l.28-33:
  \<^verbatim>\<open>this.init(); this.stopChord(); if (!this.ctx || !this.masterGain) return;\<close>
  \<^verbatim>\<open>const now = this.ctx.currentTime;\<close> and then the \<^verbatim>\<open>forEach\<close>.
\<close>

definition startChord ::
  "source_file \<Rightarrow> Browser \<Rightarrow> int list \<Rightarrow> InstrumentType \<Rightarrow> PianoTimbre
    \<Rightarrow> AudioEngine \<Rightarrow> AudioEngine" where
  "startChord f w midiNotes instrument timbre s =
     (let s1 = stopChord (init f w s)
      in case ctx s1 of
           None \<Rightarrow> s1
         | Some c \<Rightarrow>
             (case masterGain s1 of
                None \<Rightarrow> s1
              | Some master \<Rightarrow>
                  (let now = currentTime c
                   in fold addVoice
                        (forEachNote f (random w) master now instrument timbre midiNotes 0
                           (draws s1) (nextNode s1))
                        s1)))"

subsection \<open>playNotes and the timer\<close>

text \<open>
  src/unnamed/part_001, l.175-181: \<^verbatim>\<open>startChord\<close>, then
  \<^verbatim>\<open>setTimeout(() => { this.stopChord(); }, 1200)\<close>. The program never calls
  \<^verbatim>\<open>clearTimeout\<close>. (For src/services/audioEngine.ts the method lies beyond the end of
  the text; the spec, section 4.5, gives it the same behaviour.)
\<close>

definition playNotes ::
  "source_file \<Rightarrow> Browser \<Rightarrow> int list \<Rightarrow> InstrumentType \<Rightarrow> PianoTimbre
    \<Rightarrow> AudioEngine \<Rightarrow> AudioEngine" where
  "playNotes f w midiNotes instrument timbre s =
     (let s1 = startChord f w midiNotes instrument timbre s
      in s1\<lparr> timers := timers s1 @ [clock s1 + 1200] \<rparr>)"

text \<open>
  The passing of time. The audio clock of a running context advances with the clock;
  a timer callback runs at its deadline (or at once, when it is overdue), the earliest
  deadline first. Every timer of this program has the callback \<^verbatim>\<open>stopChord\<close>.
\<close>

definition setClock :: "nat \<Rightarrow> AudioEngine \<Rightarrow> AudioEngine" where
  "setClock t s =
     s\<lparr> clock := t,
         ctx := map_option
           (\<lambda>c. if state c = Running
                then c\<lparr> currentTime := currentTime c + (real t - real (clock s)) / 1000 \<rparr>
                else c)
           (ctx s) \<rparr>"

fun fire :: "nat list \<Rightarrow> AudioEngine \<Rightarrow> AudioEngine" where
  "fire [] s = s"
| "fire (d # ds) s = fire ds (stopChord (setClock (max d (clock s)) s))"

definition elapse :: "nat \<Rightarrow> AudioEngine \<Rightarrow> AudioEngine" where
  "elapse ms s =
     (let t = clock s + ms;
          due = filter (\<lambda>d. d \<le> t) (timers s);
          pending = filter (\<lambda>d. t < d) (timers s)
      in setClock t (fire (sort due) (s\<lparr> timers := pending \<rparr>)))"

subsection \<open>Runs of the engine\<close>

datatype op =
    StartChord "int list" InstrumentType PianoTimbre
  | StopChord
  | PlayNotes "int list" InstrumentType PianoTimbre
  | Elapse nat

fun step :: "source_file \<Rightarrow> Browser \<Rightarrow> op \<Rightarrow> AudioEngine \<Rightarrow> AudioEngine" where
  "step f w (StartChord midiNotes instrument timbre) s = startChord f w midiNotes instrument timbre s"
| "step f w StopChord s = stopChord s"
| "step f w (PlayNotes midiNotes instrument timbre) s = playNotes f w midiNotes instrument timbre s"
| "step f w (Elapse ms) s = elapse ms s"

fun run :: "source_file \<Rightarrow> Browser \<Rightarrow> op list \<Rightarrow> AudioEngine \<Rightarrow> AudioEngine" where
  "run f w [] s = s"
| "run f w (x # xs) s = run f w xs (step f w x s)"

subsection \<open>Which node a call acts on\<close>

text \<open>
  The node a call creates, configures, schedules, starts, stops or connects onward; for a
  call on an \<^verbatim>\<open>AudioParam\<close>, the node that owns the parameter.
\<close>

fun paramNode :: "AudioParam \<Rightarrow> node" where
  "paramNode (Gain n) = n"
| "paramNode (Frequency n) = n"
| "paramNode (Detune n) = n"
| "paramNode (QFactor n) = n"

fun acts :: "call \<Rightarrow> node option" where
  "acts NewAudioContext = None"
| "acts Resume = None"
| "acts (CreateGain n) = Some n"
| "acts (CreateOscillator n) = Some n"
| "acts (CreateBiquadFilter n) = Some n"
| "acts (CreateConvolver n) = Some n"
| "acts (SetBuffer n l r) = Some n"
| "acts (SetOscillatorType n ty) = Some n"
| "acts (SetFilterType n ty) = Some n"
| "acts (SetValue p v) = Some (paramNode p)"
| "acts (SetValueAtTime p v t) = Some (paramNode p)"
| "acts (HoldValueAtTime p t) = Some (paramNode p)"
| "acts (LinearRampToValueAtTime p v t) = Some (paramNode p)"
| "acts (ExponentialRampToValueAtTime p v t) = Some (paramNode p)"
| "acts (CancelScheduledValues p t) = Some (paramNode p)"
| "acts (Connect n tg) = Some n"
| "acts (Disconnect n) = Some n"
| "acts (Start n t) = Some n"
| "acts (Stop n t) = Some n"

fun handleNodes :: "handle \<Rightarrow> node list" where
  "handleNodes (LfoCleanup lfo) = [lfo]"
| "handleNodes (NoteCleanup osc gain) = [osc, gain]"
| "handleNodes (VoiceCleanup noteOscillators voiceGain) = voiceGain # noteOscillators"

text \<open>The node whose parameter a call modulates: \<^verbatim>\<open>n.connect(param)\<close> feeds the output
  of \<open>n\<close> into a parameter of another node.\<close>

fun modulates :: "call \<Rightarrow> node option" where
  "modulates (Connect n (Param p)) = Some (paramNode p)"
| "modulates c = None"

text \<open>A call on the mix bus: the creation of the context, or a call that acts on the
  master gain, the convolver or the reverb send gain, or modulates a parameter of one of
  them.\<close>

definition onBus :: "AudioEngine \<Rightarrow> node \<Rightarrow> bool" where
  "onBus s n \<longleftrightarrow> masterGain s = Some n \<or> reverbNode s = Some n \<or> reverbGain s = Some n"

definition busCall :: "AudioEngine \<Rightarrow> call \<Rightarrow> bool" where
  "busCall s c =
     (case acts c of
        None \<Rightarrow> c = NewAudioContext
      | Some n \<Rightarrow>
          onBus s n \<or> (case modulates c of None \<Rightarrow> False | Some m \<Rightarrow> onBus s m))"

text \<open>The calls \<^verbatim>\<open>init\<close> makes when it creates the context (without the \<^verbatim>\<open>resume\<close>).\<close>

fun busSize :: "source_file \<Rightarrow> nat" where
  "busSize AudioEngineTs = 3"
| "busSize Part001 = 1"

definition initCalls :: "source_file \<Rightarrow> Browser \<Rightarrow> call list" where
  "initCalls f w =
     (case f of
        AudioEngineTs \<Rightarrow>
          (case generateReverbImpulse (newContext w) (random w) 0 2 2 of
             Inl e \<Rightarrow> []
           | Inr (left, right, k) \<Rightarrow>
               [NewAudioContext,
                CreateGain 0, SetValue (Gain 0) 0.3,
                CreateConvolver 1, SetBuffer 1 left right,
                CreateGain 2, SetValue (Gain 2) 0.35,
                Connect 0 Destination,
                Connect 0 (Node 2),
                Connect 2 (Node 1),
                Connect 1 Destination])
      | Part001 \<Rightarrow>
          [NewAudioContext, CreateGain 0, SetValue (Gain 0) 0.4, Connect 0 Destination])"

text \<open>The invariant of the states the engine reaches from \<open>newEngine\<close>.\<close>

definition fresh :: "AudioEngine \<Rightarrow> bool" where
  "fresh s \<longleftrightarrow>
     ctx s = None \<and> masterGain s = None \<and> reverbNode s = None \<and> reverbGain s = None
     \<and> activeNodes s = [] \<and> calls s = [] \<and> nextNode s = 0 \<and> draws s = 0"

definition ready :: "source_file \<Rightarrow> Browser \<Rightarrow> AudioEngine \<Rightarrow> bool" where
  "ready f w s \<longleftrightarrow>
     ctx s \<noteq> None \<and> masterGain s = Some 0
     \<and> reverbNode s = (if f = AudioEngineTs then Some 1 else None)
     \<and> reverbGain s = (if f = AudioEngineTs then Some 2 else None)
     \<and> busSize f \<le> nextNode s
     \<and> (\<forall>h \<in> set (activeNodes s). \<forall>n \<in> set (handleNodes h). busSize f \<le> n \<and> n < nextNode s)
     \<and> filter (busCall s) (calls s) = initCalls f w"

definition invariant :: "source_file \<Rightarrow> Browser \<Rightarrow> AudioEngine \<Rightarrow> bool" where
  "invariant f w s \<longleftrightarrow> fresh s \<or> ready f w s"

subsection \<open>Scheduled start times\<close>

text \<open>The times of the \<^verbatim>\<open>start(t)\<close> calls in a list of calls, in order.\<close>

fun starts :: "call list \<Rightarrow> real list" where
  "starts [] = []"
| "starts (Start n t # cs) = t # starts cs"
| "starts (c # cs) = starts cs"

text \<open>The factor of \<^verbatim>\<open>index\<close> in the stagger: \<^verbatim>\<open>index * 0.04\<close> in
  src/services/audioEngine.ts (l.72), \<^verbatim>\<open>index * 0.03\<close> in src/unnamed/part_001 (l.38).\<close>

fun staggerStep :: "source_file \<Rightarrow> real" where
  "staggerStep AudioEngineTs = 0.04"
| "staggerStep Part001 = 0.03"

subsection \<open>The envelope and the energy of a buffer\<close>

text \<open>\<^verbatim>\<open>vol\<close> of the impulse loop at sample \<open>i\<close>: \<^verbatim>\<open>Math.pow(1 - i / length, decay)\<close>.\<close>

definition envelope :: "real \<Rightarrow> real \<Rightarrow> nat \<Rightarrow> real" where
  "envelope len decay i = (1 - real i / len) powr decay"

text \<open>The \<open>j\<close>-th window of \<open>n\<close> samples, and the mean squared amplitude of a list of
  samples.\<close>

definition window :: "nat \<Rightarrow> nat \<Rightarrow> real list \<Rightarrow> real list" where
  "window n j xs = take n (drop (j * n) xs)"

definition energy :: "real list \<Rightarrow> real" where
  "energy xs = (\<Sum>x\<leftarrow>xs. x\<^sup>2) / real (length xs)"

text \<open>A random source whose first 88200 results are 1/2 (a sample of 0) and whose later
  results are 0 (a sample of -1 times the envelope): at 44100 Hz the first second of the
  left channel is silent.\<close>

definition lateNoise :: "nat \<Rightarrow> real" where
  "lateNoise k = (if k < 88200 then 1 / 2 else 0)"

text \<open>The left channel of the generated buffer; no samples when \<^verbatim>\<open>createBuffer\<close> raised.\<close>

definition impulseLeft :: "AudioContext \<Rightarrow> (nat \<Rightarrow> real) \<Rightarrow> nat \<Rightarrow> real \<Rightarrow> real \<Rightarrow> real list" where
  "impulseLeft c rnd k duration decay =
     (case generateReverbImpulse c rnd k duration decay of
        Inl e \<Rightarrow> []
      | Inr (left, right, k') \<Rightarrow> left)"

text \<open>The calls of a log that act on a given node, in order.\<close>

definition callsOn :: "node \<Rightarrow> call list \<Rightarrow> call list" where
  "callsOn n cs = filter (\<lambda>c. acts c = Some n) cs"

text \<open>The values that a list of calls assigns to the detune of an oscillator, in order.\<close>

fun detunes :: "call list \<Rightarrow> real list" where
  "detunes [] = []"
| "detunes (SetValue (Detune n) v # cs) = v # detunes cs"
| "detunes (c # cs) = detunes cs"

section \<open>Properties\<close>

subsection \<open>The impulse loop\<close>

lemma Rep_hertz_bounds: "0 < Rep_hertz r" "Rep_hertz r < 2 ^ 31"
  using Rep_hertz [of r] by simp_all

lemma fillImpulse_eq:
  "fillImpulse rnd len decay i k left right =
     (map (\<lambda>j. if i \<le> j \<and> j < nat \<lceil>len\<rceil>
                then (rnd (k + 2 * (j - i)) * 2 - 1) * envelope len decay j else left ! j)
        [0..<length left],
      map (\<lambda>j. if i \<le> j \<and> j < nat \<lceil>len\<rceil>
                then (rnd (k + 2 * (j - i) + 1) * 2 - 1) * envelope len decay j else right ! j)
        [0..<length right],
      k + 2 * (nat \<lceil>len\<rceil> - i))"
proof (induction rnd len decay i k left right rule: fillImpulse.induct)
  case (1 rnd len decay i k left right)
  let ?N = "nat \<lceil>len\<rceil>"
  show ?case
  proof (cases "real i < len")
    case True
    then have "int i < \<lceil>len\<rceil>" by (simp add: less_ceiling_iff)
    then have lt: "i < ?N" by linarith
    let ?a = "(rnd k * 2 - 1) * envelope len decay i"
    let ?b = "(rnd (k + 1) * 2 - 1) * envelope len decay i"
    have step: "fillImpulse rnd len decay i k left right =
       fillImpulse rnd len decay (i + 1) (k + 2) (left[i := ?a]) (right[i := ?b])"
      using True by (subst fillImpulse.simps) (simp add: Let_def envelope_def)
    have ih: "fillImpulse rnd len decay (i + 1) (k + 2) (left[i := ?a]) (right[i := ?b]) =
      (map (\<lambda>j. if i + 1 \<le> j \<and> j < ?N
                then (rnd (k + 2 + 2 * (j - (i + 1))) * 2 - 1) * envelope len decay j
                else left[i := ?a] ! j) [0..<length (left[i := ?a])],
       map (\<lambda>j. if i + 1 \<le> j \<and> j < ?N
                then (rnd (k + 2 + 2 * (j - (i + 1)) + 1) * 2 - 1) * envelope len decay j
                else right[i := ?b] ! j) [0..<length (right[i := ?b])],
       k + 2 + 2 * (?N - (i + 1)))"
      using "1.IH" [OF True refl refl] by (simp add: envelope_def)
    have l: "map (\<lambda>j. if i + 1 \<le> j \<and> j < ?N
                then (rnd (k + 2 + 2 * (j - (i + 1))) * 2 - 1) * envelope len decay j
                else left[i := ?a] ! j) [0..<length (left[i := ?a])]
        = map (\<lambda>j. if i \<le> j \<and> j < ?N
                then (rnd (k + 2 * (j - i)) * 2 - 1) * envelope len decay j else left ! j)
            [0..<length left]"
    proof (rule map_cong)
      show "[0..<length (left[i := ?a])] = [0..<length left]" by simp
    next
      fix j assume "j \<in> set [0..<length left]"
      then have j: "j < length left" by simp
      consider "j < i" | "j = i" | "i < j" by linarith
      then show "(if i + 1 \<le> j \<and> j < ?N
                then (rnd (k + 2 + 2 * (j - (i + 1))) * 2 - 1) * envelope len decay j
                else left[i := ?a] ! j)
          = (if i \<le> j \<and> j < ?N
                then (rnd (k + 2 * (j - i)) * 2 - 1) * envelope len decay j else left ! j)"
      proof cases
        case 1
        then show ?thesis by simp
      next
        case 2
        with j lt show ?thesis by simp
      next
        case 3
        then have e: "k + 2 + 2 * (j - (i + 1)) = k + 2 * (j - i)" by simp
        from 3 have c: "(i + 1 \<le> j \<and> j < ?N) = (i \<le> j \<and> j < ?N)" "left[i := ?a] ! j = left ! j"
          "right[i := ?b] ! j = right ! j" by simp_all
        show ?thesis unfolding e c ..
      qed
    qed
    have r: "map (\<lambda>j. if i + 1 \<le> j \<and> j < ?N
                then (rnd (k + 2 + 2 * (j - (i + 1)) + 1) * 2 - 1) * envelope len decay j
                else right[i := ?b] ! j) [0..<length (right[i := ?b])]
        = map (\<lambda>j. if i \<le> j \<and> j < ?N
                then (rnd (k + 2 * (j - i) + 1) * 2 - 1) * envelope len decay j else right ! j)
            [0..<length right]"
    proof (rule map_cong)
      show "[0..<length (right[i := ?b])] = [0..<length right]" by simp
    next
      fix j assume "j \<in> set [0..<length right]"
      then have j: "j < length right" by simp
      consider "j < i" | "j = i" | "i < j" by linarith
      then show "(if i + 1 \<le> j \<and> j < ?N
                then (rnd (k + 2 + 2 * (j - (i + 1)) + 1) * 2 - 1) * envelope len decay j
                else right[i := ?b] ! j)
          = (if i \<le> j \<and> j < ?N
                then (rnd (k + 2 * (j - i) + 1) * 2 - 1) * envelope len decay j else right ! j)"
      proof cases
        case 1
        then show ?thesis by simp
      next
        case 2
        with j lt show ?thesis by simp
      next
        case 3
        then have e: "k + 2 + 2 * (j - (i + 1)) = k + 2 * (j - i)" by simp
        from 3 have c: "(i + 1 \<le> j \<and> j < ?N) = (i \<le> j \<and> j < ?N)" "left[i := ?a] ! j = left ! j"
          "right[i := ?b] ! j = right ! j" by simp_all
        show ?thesis unfolding e c ..
      qed
    qed
    have k: "k + 2 + 2 * (?N - (i + 1)) = k + 2 * (?N - i)"
      using lt by simp
    show ?thesis
      unfolding step ih l r k ..
  next
    case False
    then have "\<lceil>len\<rceil> \<le> int i" by (simp add: ceiling_le_iff)
    then have n: "?N \<le> i" by linarith
    have e: "fillImpulse rnd len decay i k left right = (left, right, k)"
      using False by (subst fillImpulse.simps) simp
    have nc: "\<not> (i \<le> j \<and> j < ?N)" for j
      using n by linarith
    have l: "map (\<lambda>j. if i \<le> j \<and> j < ?N
                then (rnd (k + 2 * (j - i)) * 2 - 1) * envelope len decay j else left ! j)
            [0..<length left] = left"
      by (intro nth_equalityI) (simp_all add: nc)
    have r: "map (\<lambda>j. if i \<le> j \<and> j < ?N
                then (rnd (k + 2 * (j - i) + 1) * 2 - 1) * envelope len decay j else right ! j)
            [0..<length right] = right"
      by (intro nth_equalityI) (simp_all add: nc)
    from n have "k + 2 * (?N - i) = k" by simp
    then show ?thesis unfolding e l r by simp
  qed
qed

lemma createBuffer_frames:
  assumes "1 \<le> len" "len < 2 ^ 32"
  shows "createBuffer len = Inr (replicate (nat \<lfloor>len\<rfloor>) 0, replicate (nat \<lfloor>len\<rfloor>) 0)"
proof -
  from assms(1) have a: "1 \<le> \<lfloor>len\<rfloor>" by (simp add: le_floor_iff)
  from assms(2) have b: "\<lfloor>len\<rfloor> < 2 ^ 32" by (simp add: floor_less_iff)
  from a b have "\<lfloor>len\<rfloor> mod 2 ^ 32 = \<lfloor>len\<rfloor>" by simp
  moreover from a have "nat \<lfloor>len\<rfloor> \<noteq> 0" by simp
  moreover from assms(1) have "0 \<le> len" by simp
  ultimately show ?thesis by (simp add: createBuffer_def Let_def)
qed

lemma createBuffer_refused:
  assumes "0 \<le> len" "len < 1"
  shows "createBuffer len = Inl NotSupportedError"
proof -
  from assms have "\<lfloor>len\<rfloor> = 0" by (simp add: floor_eq_iff)
  with assms(1) show ?thesis by (simp add: createBuffer_def Let_def)
qed

lemma generateReverbImpulse_eq:
  assumes "1 \<le> real (Rep_hertz (sampleRate c)) * duration"
    "real (Rep_hertz (sampleRate c)) * duration < 2 ^ 32"
  shows "generateReverbImpulse c rnd k duration decay =
     Inr (map (\<lambda>j. (rnd (k + 2 * j) * 2 - 1) * envelope (real (Rep_hertz (sampleRate c)) * duration) decay j)
            [0..<nat \<lfloor>real (Rep_hertz (sampleRate c)) * duration\<rfloor>],
          map (\<lambda>j. (rnd (k + 2 * j + 1) * 2 - 1) * envelope (real (Rep_hertz (sampleRate c)) * duration) decay j)
            [0..<nat \<lfloor>real (Rep_hertz (sampleRate c)) * duration\<rfloor>],
          k + 2 * nat \<lceil>real (Rep_hertz (sampleRate c)) * duration\<rceil>)"
proof -
  let ?len = "real (Rep_hertz (sampleRate c)) * duration"
  have fc: "nat \<lfloor>?len\<rfloor> \<le> nat \<lceil>?len\<rceil>"
    by (simp add: floor_le_ceiling nat_mono)
  have l: "map (\<lambda>j. if 0 \<le> j \<and> j < nat \<lceil>?len\<rceil>
                then (rnd (k + 2 * (j - 0)) * 2 - 1) * envelope ?len decay j
                else replicate (nat \<lfloor>?len\<rfloor>) 0 ! j) [0..<nat \<lfloor>?len\<rfloor>]
      = map (\<lambda>j. (rnd (k + 2 * j) * 2 - 1) * envelope ?len decay j) [0..<nat \<lfloor>?len\<rfloor>]"
    using fc by (intro map_cong refl) simp
  have r: "map (\<lambda>j. if 0 \<le> j \<and> j < nat \<lceil>?len\<rceil>
                then (rnd (k + 2 * (j - 0) + 1) * 2 - 1) * envelope ?len decay j
                else replicate (nat \<lfloor>?len\<rfloor>) 0 ! j) [0..<nat \<lfloor>?len\<rfloor>]
      = map (\<lambda>j. (rnd (k + 2 * j + 1) * 2 - 1) * envelope ?len decay j) [0..<nat \<lfloor>?len\<rfloor>]"
    using fc by (intro map_cong refl) simp
  have "fillImpulse rnd ?len decay 0 k (replicate (nat \<lfloor>?len\<rfloor>) 0) (replicate (nat \<lfloor>?len\<rfloor>) 0)
      = (map (\<lambda>j. (rnd (k + 2 * j) * 2 - 1) * envelope ?len decay j) [0..<nat \<lfloor>?len\<rfloor>],
         map (\<lambda>j. (rnd (k + 2 * j + 1) * 2 - 1) * envelope ?len decay j) [0..<nat \<lfloor>?len\<rfloor>],
         k + 2 * nat \<lceil>?len\<rceil>)"
    unfolding fillImpulse_eq length_replicate l r by simp
  then show ?thesis
    by (simp add: generateReverbImpulse_def Let_def createBuffer_frames [OF assms])
qed

lemma generateReverbImpulse_init:
  "generateReverbImpulse c rnd k 2 2 =
     Inr (map (\<lambda>j. (rnd (k + 2 * j) * 2 - 1) * envelope (2 * real (Rep_hertz (sampleRate c))) 2 j)
            [0..<2 * Rep_hertz (sampleRate c)],
          map (\<lambda>j. (rnd (k + 2 * j + 1) * 2 - 1) * envelope (2 * real (Rep_hertz (sampleRate c))) 2 j)
            [0..<2 * Rep_hertz (sampleRate c)],
          k + 4 * Rep_hertz (sampleRate c))"
proof -
  let ?r = "Rep_hertz (sampleRate c)"
  have e: "real ?r * 2 = real (2 * ?r)" by simp
  have 1: "1 \<le> real ?r * 2"
    using Rep_hertz_bounds(1) [of "sampleRate c"] unfolding e by (simp del: of_nat_mult)
  have "2 * ?r < 2 ^ 32"
    using Rep_hertz_bounds(2) [of "sampleRate c"] by simp
  then have "real (2 * ?r) < real (2 ^ 32)" by (rule of_nat_less_iff [THEN iffD2])
  then have 2: "real ?r * 2 < 2 ^ 32" unfolding e by simp
  have f: "nat \<lfloor>real (2 * ?r)\<rfloor> = 2 * ?r" "nat \<lceil>real (2 * ?r)\<rceil> = 2 * ?r"
    by (simp_all del: of_nat_mult)
  show ?thesis
    unfolding generateReverbImpulse_eq [OF 1 2] unfolding e f by (simp add: mult.commute)
qed

subsection \<open>Frame lemmas\<close>

lemma length_forEachNote [simp]:
  "length (forEachNote f rnd master now instrument timbre midiNotes index k free) = length midiNotes"
  by (induction midiNotes arbitrary: index k free) (simp_all add: Let_def)

lemma fold_addVoice_calls [simp]:
  "calls (fold addVoice vs s) = calls s @ concat (map vCalls vs)"
  by (induction vs arbitrary: s) (simp_all add: addVoice_def)

lemma fold_addVoice_activeNodes [simp]:
  "activeNodes (fold addVoice vs s) = activeNodes s @ concat (map vHandles vs)"
  by (induction vs arbitrary: s) (simp_all add: addVoice_def)

lemma fold_addVoice_nextNode [simp]:
  "nextNode (fold addVoice vs s) = nextNode s + sum_list (map vNodes vs)"
  by (induction vs arbitrary: s) (simp_all add: addVoice_def)

lemma fold_addVoice_draws [simp]:
  "draws (fold addVoice vs s) = draws s + sum_list (map vDraws vs)"
  by (induction vs arbitrary: s) (simp_all add: addVoice_def)

lemma fold_addVoice_frame [simp]:
  "ctx (fold addVoice vs s) = ctx s"
  "masterGain (fold addVoice vs s) = masterGain s"
  "reverbNode (fold addVoice vs s) = reverbNode s"
  "reverbGain (fold addVoice vs s) = reverbGain s"
  "timers (fold addVoice vs s) = timers s"
  "clock (fold addVoice vs s) = clock s"
  by (induction vs arbitrary: s) (simp_all add: addVoice_def)

lemma resumeIfSuspended_frame [simp]:
  "masterGain (resumeIfSuspended s) = masterGain s"
  "reverbNode (resumeIfSuspended s) = reverbNode s"
  "reverbGain (resumeIfSuspended s) = reverbGain s"
  "activeNodes (resumeIfSuspended s) = activeNodes s"
  "nextNode (resumeIfSuspended s) = nextNode s"
  "draws (resumeIfSuspended s) = draws s"
  "timers (resumeIfSuspended s) = timers s"
  "clock (resumeIfSuspended s) = clock s"
  by (simp_all add: resumeIfSuspended_def split: option.splits)

lemma resumeIfSuspended_ctx:
  "ctx (resumeIfSuspended s) = map_option (\<lambda>c. c\<lparr> state := Running \<rparr>) (ctx s)"
  by (cases "ctx s") (auto simp: resumeIfSuspended_def intro: AudioContextState.exhaust)

lemma resumeIfSuspended_calls:
  "calls (resumeIfSuspended s) =
     calls s @ (case ctx s of None \<Rightarrow> [] | Some c \<Rightarrow> if state c = Suspended then [Resume] else [])"
  by (simp add: resumeIfSuspended_def split: option.splits)

lemma init_frame [simp]:
  "activeNodes (init f w s) = activeNodes s"
  "timers (init f w s) = timers s"
  "clock (init f w s) = clock s"
  by (cases f; simp add: init_ts_def init_p1_def Let_def split: prod.splits sum.splits)+

lemma init_ctx: "\<exists>c. ctx (init f w s) = Some c"
  by (cases f; cases "ctx s";
      simp add: init_ts_def init_p1_def Let_def resumeIfSuspended_ctx split: prod.splits sum.splits)

lemma stopChord_frame [simp]:
  "ctx (stopChord s) = ctx s"
  "masterGain (stopChord s) = masterGain s"
  "reverbNode (stopChord s) = reverbNode s"
  "reverbGain (stopChord s) = reverbGain s"
  "nextNode (stopChord s) = nextNode s"
  "draws (stopChord s) = draws s"
  "timers (stopChord s) = timers s"
  "clock (stopChord s) = clock s"
  by (simp_all add: stopChord_def Let_def split: option.splits)

lemma stopChord_activeNodes: "ctx s \<noteq> None \<Longrightarrow> activeNodes (stopChord s) = []"
  by (auto simp: stopChord_def Let_def split: option.splits)

lemma stopChord_calls:
  "ctx s = Some c \<Longrightarrow>
   calls (stopChord s) = calls s @ concat (map (\<lambda>node. release node (currentTime c)) (activeNodes s))"
  by (auto simp: stopChord_def Let_def split: option.splits)

lemma stopChord_idem: "stopChord (stopChord s) = stopChord s"
  by (auto simp: stopChord_def Let_def split: option.splits)

lemma release_acts:
  "c \<in> set (release h t) \<Longrightarrow> \<exists>n \<in> set (handleNodes h). acts c = Some n"
  by (cases h) (auto simp: releaseVoice_def stopVoice_def)

lemma release_modulates: "c \<in> set (release h t) \<Longrightarrow> modulates c = None"
  by (cases h) (auto simp: releaseVoice_def stopVoice_def)

lemma noteVoice_modulates:
  "c \<in> set (vCalls (noteVoice f rnd k master now instrument timbre x index free)) \<Longrightarrow>
   modulates c = Some m \<Longrightarrow>
   free \<le> m \<and> m < free + vNodes (noteVoice f rnd k master now instrument timbre x index free)"
  by (cases f; cases instrument; cases timbre)
     (auto simp: noteVoice_ts_def noteVoice_p1_def recipe_ts_def tone_p1_def registerVoice_def Let_def)

lemma noteVoice_acts:
  "c \<in> set (vCalls (noteVoice f rnd k master now instrument timbre note index free)) \<Longrightarrow>
   \<exists>n. acts c = Some n \<and> free \<le> n \<and> n < free + vNodes (noteVoice f rnd k master now instrument timbre note index free)"
  by (cases f; cases instrument; cases timbre)
     (auto simp: noteVoice_ts_def noteVoice_p1_def recipe_ts_def tone_p1_def registerVoice_def Let_def)

lemma noteVoice_handles:
  "h \<in> set (vHandles (noteVoice f rnd k master now instrument timbre note index free)) \<Longrightarrow>
   n \<in> set (handleNodes h) \<Longrightarrow>
   free \<le> n \<and> n < free + vNodes (noteVoice f rnd k master now instrument timbre note index free)"
  by (cases f; cases instrument; cases timbre)
     (auto simp: noteVoice_ts_def noteVoice_p1_def recipe_ts_def tone_p1_def registerVoice_def Let_def)

lemma forEachNote_acts:
  "v \<in> set (forEachNote f rnd master now instrument timbre midiNotes index k free) \<Longrightarrow>
   c \<in> set (vCalls v) \<Longrightarrow>
   \<exists>n. acts c = Some n \<and> free \<le> n
     \<and> n < free + sum_list (map vNodes (forEachNote f rnd master now instrument timbre midiNotes index k free))"
proof (induction midiNotes arbitrary: index k free)
  case Nil
  then show ?case by simp
next
  case (Cons x midiNotes)
  let ?v = "noteVoice f rnd k master now instrument timbre x index free"
  from Cons.prems(1) consider "v = ?v"
    | "v \<in> set (forEachNote f rnd master now instrument timbre midiNotes (index + 1) (k + vDraws ?v) (free + vNodes ?v))"
    by (auto simp: Let_def)
  then show ?case
  proof cases
    case 1
    with Cons.prems(2) noteVoice_acts [of c f rnd k master now instrument timbre x index free]
    show ?thesis by (auto simp: Let_def)
  next
    case 2
    from Cons.IH [OF 2 Cons.prems(2)] show ?thesis by (auto simp: Let_def)
  qed
qed

lemma forEachNote_handles:
  "v \<in> set (forEachNote f rnd master now instrument timbre midiNotes index k free) \<Longrightarrow>
   h \<in> set (vHandles v) \<Longrightarrow> n \<in> set (handleNodes h) \<Longrightarrow>
   free \<le> n
     \<and> n < free + sum_list (map vNodes (forEachNote f rnd master now instrument timbre midiNotes index k free))"
proof (induction midiNotes arbitrary: index k free)
  case Nil
  then show ?case by simp
next
  case (Cons x midiNotes)
  let ?v = "noteVoice f rnd k master now instrument timbre x index free"
  from Cons.prems(1) consider "v = ?v"
    | "v \<in> set (forEachNote f rnd master now instrument timbre midiNotes (index + 1) (k + vDraws ?v) (free + vNodes ?v))"
    by (auto simp: Let_def)
  then show ?case
  proof cases
    case 1
    with Cons.prems(2,3) noteVoice_handles [of h f rnd k master now instrument timbre x index free n]
    show ?thesis by (auto simp: Let_def)
  next
    case 2
    from Cons.IH [OF 2 Cons.prems(2,3)] show ?thesis by (auto simp: Let_def)
  qed
qed

lemma forEachNote_modulates:
  "v \<in> set (forEachNote f rnd master now instrument timbre midiNotes index k free) \<Longrightarrow>
   c \<in> set (vCalls v) \<Longrightarrow> modulates c = Some m \<Longrightarrow>
   free \<le> m
     \<and> m < free + sum_list (map vNodes (forEachNote f rnd master now instrument timbre midiNotes index k free))"
proof (induction midiNotes arbitrary: index k free)
  case Nil
  then show ?case by simp
next
  case (Cons x midiNotes)
  let ?v = "noteVoice f rnd k master now instrument timbre x index free"
  from Cons.prems(1) consider "v = ?v"
    | "v \<in> set (forEachNote f rnd master now instrument timbre midiNotes (index + 1) (k + vDraws ?v) (free + vNodes ?v))"
    by (auto simp: Let_def)
  then show ?case
  proof cases
    case 1
    with Cons.prems(2,3) noteVoice_modulates [of c f rnd k master now instrument timbre x index free m]
    show ?thesis by (auto simp: Let_def)
  next
    case 2
    from Cons.IH [OF 2 Cons.prems(2,3)] show ?thesis by (auto simp: Let_def)
  qed
qed

lemma busCall_high:
  assumes "ready f w s" "acts c = Some n" "busSize f \<le> n"
    and "\<And>m. modulates c = Some m \<Longrightarrow> busSize f \<le> m"
  shows "\<not> busCall s c"
proof (cases "modulates c")
  case None
  with assms(1,2,3) show ?thesis
    by (cases f) (simp_all add: ready_def busCall_def onBus_def)
next
  case (Some m)
  from assms(4) [OF Some] assms(1,2,3) Some show ?thesis
    by (cases f) (simp_all add: ready_def busCall_def onBus_def)
qed

lemma busCall_cong:
  assumes "masterGain s' = masterGain s" "reverbNode s' = reverbNode s" "reverbGain s' = reverbGain s"
  shows "busCall s' = busCall s"
proof
  fix c
  show "busCall s' c = busCall s c"
    unfolding busCall_def onBus_def assms ..
qed

lemma ready_append:
  assumes r: "ready f w s"
    and frame: "ctx s' \<noteq> None" "masterGain s' = masterGain s" "reverbNode s' = reverbNode s"
      "reverbGain s' = reverbGain s" "nextNode s \<le> nextNode s'"
    and new: "calls s' = calls s @ cs" "\<And>c. c \<in> set cs \<Longrightarrow> \<not> busCall s c"
    and hs: "\<And>h n. h \<in> set (activeNodes s') \<Longrightarrow> n \<in> set (handleNodes h) \<Longrightarrow>
               busSize f \<le> n \<and> n < nextNode s'"
  shows "ready f w s'"
proof -
  have b: "busCall s' = busCall s"
    using frame(2,3,4) by (rule busCall_cong)
  have "filter (busCall s) cs = []"
    using new(2) by (simp add: filter_empty_conv)
  then have "filter (busCall s') (calls s') = initCalls f w"
    using r new(1) b by (simp add: ready_def)
  moreover from r frame(5) have "busSize f \<le> nextNode s'"
    by (simp add: ready_def)
  moreover from hs have "\<forall>h \<in> set (activeNodes s'). \<forall>n \<in> set (handleNodes h). busSize f \<le> n \<and> n < nextNode s'"
    by blast
  ultimately show ?thesis
    using r frame(1,2,3,4) unfolding ready_def by simp
qed

lemma ready_stopChord:
  assumes r: "ready f w s"
  shows "ready f w (stopChord s)"
proof -
  from r obtain c where c: "ctx s = Some c" by (auto simp: ready_def)
  let ?cs = "concat (map (\<lambda>node. release node (currentTime c)) (activeNodes s))"
  have 1: "ctx (stopChord s) \<noteq> None" using c by simp
  have 2: "calls (stopChord s) = calls s @ ?cs"
    using c by (rule stopChord_calls)
  have 3: "\<not> busCall s x" if "x \<in> set ?cs" for x
  proof -
    from that obtain h where h: "h \<in> set (activeNodes s)" "x \<in> set (release h (currentTime c))"
      by auto
    from release_acts [OF h(2)] obtain n where n: "n \<in> set (handleNodes h)" "acts x = Some n"
      by blast
    from r h(1) n(1) have "busSize f \<le> n" unfolding ready_def by blast
    then show ?thesis
      by (rule busCall_high [OF r n(2)]) (simp add: release_modulates [OF h(2)])
  qed
  have 4: "busSize f \<le> n \<and> n < nextNode (stopChord s)"
    if "h \<in> set (activeNodes (stopChord s))" "n \<in> set (handleNodes h)" for h n
    using that c by (simp add: stopChord_activeNodes)
  show ?thesis
    by (rule ready_append [OF r 1 _ _ _ _ 2 3 4]) simp_all
qed

subsection \<open>The invariant of reachable states\<close>

lemma ready_ctx: "ready f w s \<Longrightarrow> \<exists>c. ctx s = Some c"
  unfolding ready_def by blast

lemma ready_masterGain: "ready f w s \<Longrightarrow> masterGain s = Some 0"
  unfolding ready_def by blast

lemma ready_nextNode: "ready f w s \<Longrightarrow> busSize f \<le> nextNode s"
  unfolding ready_def by blast

lemma ready_handles:
  "ready f w s \<Longrightarrow> h \<in> set (activeNodes s) \<Longrightarrow> n \<in> set (handleNodes h) \<Longrightarrow>
   busSize f \<le> n \<and> n < nextNode s"
  unfolding ready_def by blast

lemma ready_busCalls: "ready f w s \<Longrightarrow> filter (busCall s) (calls s) = initCalls f w"
  unfolding ready_def by blast

lemma ready_forEach:
  assumes r: "ready f w s"
  shows "ready f w (fold addVoice (forEachNote f rnd master now instrument timbre midiNotes index k (nextNode s)) s)"
proof -
  let ?vs = "forEachNote f rnd master now instrument timbre midiNotes index k (nextNode s)"
  from ready_ctx [OF r] have 1: "ctx (fold addVoice ?vs s) \<noteq> None" by auto
  have 2: "calls (fold addVoice ?vs s) = calls s @ concat (map vCalls ?vs)" by simp
  have 3: "\<not> busCall s c" if "c \<in> set (concat (map vCalls ?vs))" for c
  proof -
    from that obtain v where v: "v \<in> set ?vs" "c \<in> set (vCalls v)" by auto
    from forEachNote_acts [OF v] obtain n where n: "acts c = Some n" "nextNode s \<le> n" by blast
    from ready_nextNode [OF r] n(2) have "busSize f \<le> n" by simp
    moreover have "busSize f \<le> m" if "modulates c = Some m" for m
      using forEachNote_modulates [OF v that] ready_nextNode [OF r] by simp
    ultimately show ?thesis by (rule busCall_high [OF r n(1)])
  qed
  have 4: "busSize f \<le> n \<and> n < nextNode (fold addVoice ?vs s)"
    if "h \<in> set (activeNodes (fold addVoice ?vs s))" "n \<in> set (handleNodes h)" for h n
  proof -
    from that(1) consider "h \<in> set (activeNodes s)" | v where "v \<in> set ?vs" "h \<in> set (vHandles v)"
      by auto
    then show ?thesis
    proof cases
      case 1
      from ready_handles [OF r 1 that(2)] show ?thesis by simp
    next
      case 2
      from forEachNote_handles [OF 2 that(2)] ready_nextNode [OF r] show ?thesis by simp
    qed
  qed
  show ?thesis
    by (rule ready_append [OF r 1 _ _ _ _ 2 3 4]) simp_all
qed

lemma ready_resume: 
  assumes r: "ready f w s"
  shows "ready f w (resumeIfSuspended s)"
proof -
  let ?cs = "case ctx s of None \<Rightarrow> [] | Some c \<Rightarrow> if state c = Suspended then [Resume] else []"
  from ready_ctx [OF r] have 1: "ctx (resumeIfSuspended s) \<noteq> None"
    by (auto simp: resumeIfSuspended_ctx)
  have 2: "calls (resumeIfSuspended s) = calls s @ ?cs"
    by (rule resumeIfSuspended_calls)
  have 3: "\<not> busCall s c" if "c \<in> set ?cs" for c
  proof -
    from that have "c = Resume" by (auto split: option.splits if_splits)
    then show ?thesis by (simp add: busCall_def)
  qed
  have 4: "busSize f \<le> n \<and> n < nextNode (resumeIfSuspended s)"
    if "h \<in> set (activeNodes (resumeIfSuspended s))" "n \<in> set (handleNodes h)" for h n
    using ready_handles [OF r, of h n] that by simp
  show ?thesis
    by (rule ready_append [OF r 1 _ _ _ _ 2 3 4]) simp_all
qed

lemma ready_init: "ready f w s \<Longrightarrow> ready f w (init f w s)"
proof -
  assume r: "ready f w s"
  from ready_ctx [OF r] have "init f w s = resumeIfSuspended s"
    by (cases f) (auto simp: init_ts_def init_p1_def)
  with ready_resume [OF r] show ?thesis by simp
qed

lemma fresh_init_p1: "fresh s \<Longrightarrow> ready Part001 w (init_p1 w s)"
  by (simp add: fresh_def ready_def init_p1_def Let_def resumeIfSuspended_def busCall_def onBus_def
      initCalls_def)

lemma fresh_init_ts: "fresh s \<Longrightarrow> ready AudioEngineTs w (init_ts w s)"
  by (simp add: fresh_def ready_def init_ts_def Let_def resumeIfSuspended_def busCall_def onBus_def
      initCalls_def generateReverbImpulse_init)

lemma invariant_init:
  assumes "invariant f w s"
  shows "ready f w (init f w s)"
proof -
  from assms consider "fresh s" | "ready f w s"
    unfolding invariant_def by blast
  then show ?thesis
  proof cases
    case 1
    then show ?thesis
      by (cases f) (simp_all add: fresh_init_p1 fresh_init_ts)
  next
    case 2
    then show ?thesis by (rule ready_init)
  qed
qed

lemma setClock_frame [simp]:
  "masterGain (setClock t s) = masterGain s"
  "reverbNode (setClock t s) = reverbNode s"
  "reverbGain (setClock t s) = reverbGain s"
  "activeNodes (setClock t s) = activeNodes s"
  "calls (setClock t s) = calls s"
  "nextNode (setClock t s) = nextNode s"
  "draws (setClock t s) = draws s"
  "timers (setClock t s) = timers s"
  "clock (setClock t s) = t"
  by (simp_all add: setClock_def)

lemma setClock_ctx_None [simp]: "ctx (setClock t s) = None \<longleftrightarrow> ctx s = None"
  by (simp add: setClock_def)

lemma fresh_setClock: "fresh s \<Longrightarrow> fresh (setClock t s)"
  by (simp add: fresh_def)

lemma ready_setClock:
  assumes r: "ready f w s"
  shows "ready f w (setClock t s)"
proof -
  from ready_ctx [OF r] have 1: "ctx (setClock t s) \<noteq> None" by auto
  have 2: "calls (setClock t s) = calls s @ []" by simp
  have 4: "busSize f \<le> n \<and> n < nextNode (setClock t s)"
    if "h \<in> set (activeNodes (setClock t s))" "n \<in> set (handleNodes h)" for h n
    using ready_handles [OF r, of h n] that by simp
  show ?thesis
    by (rule ready_append [OF r 1 _ _ _ _ 2 _ 4]) simp_all
qed

lemma invariant_setClock: "invariant f w s \<Longrightarrow> invariant f w (setClock t s)"
  unfolding invariant_def using fresh_setClock ready_setClock by blast

lemma fresh_stopChord: "fresh s \<Longrightarrow> stopChord s = s"
  by (simp add: fresh_def stopChord_def)

lemma invariant_stopChord:
  assumes "invariant f w s"
  shows "invariant f w (stopChord s)"
proof -
  from assms consider "fresh s" | "ready f w s"
    unfolding invariant_def by blast
  then show ?thesis
  proof cases
    case 1
    with assms show ?thesis by (simp add: fresh_stopChord)
  next
    case 2
    then have "ready f w (stopChord s)" by (rule ready_stopChord)
    then show ?thesis unfolding invariant_def ..
  qed
qed

lemma busCall_timers [simp]: "busCall (s\<lparr> timers := ts \<rparr>) = busCall s"
  by (rule busCall_cong) simp_all

lemma timers_update_frame [simp]:
  "fresh (s\<lparr> timers := ts \<rparr>) = fresh s"
  "ready f w (s\<lparr> timers := ts \<rparr>) = ready f w s"
  by (simp_all add: fresh_def ready_def)

lemma invariant_timers [simp]: "invariant f w (s\<lparr> timers := ts \<rparr>) = invariant f w s"
  by (simp add: invariant_def)

lemma invariant_fire: "invariant f w s \<Longrightarrow> invariant f w (fire ds s)"
  by (induction ds arbitrary: s) (simp_all add: invariant_setClock invariant_stopChord)

lemma invariant_elapse: "invariant f w s \<Longrightarrow> invariant f w (elapse ms s)"
  by (simp add: elapse_def Let_def invariant_setClock invariant_fire)

lemma startChord_eq:
  assumes "invariant f w s"
  shows "\<exists>c. ctx (init f w s) = Some c \<and>
     startChord f w midiNotes instrument timbre s =
       fold addVoice
         (forEachNote f (random w) 0 (currentTime c) instrument timbre midiNotes 0
            (draws (init f w s)) (nextNode (init f w s)))
         (stopChord (init f w s))"
proof -
  have r: "ready f w (init f w s)"
    using assms by (rule invariant_init)
  from ready_ctx [OF r] obtain c where c: "ctx (init f w s) = Some c" by blast
  from ready_masterGain [OF r] have m: "masterGain (init f w s) = Some 0" .
  show ?thesis
    using c m by (simp add: startChord_def Let_def)
qed

lemma ready_startChord:
  assumes "invariant f w s"
  shows "ready f w (startChord f w midiNotes instrument timbre s)"
proof -
  let ?s0 = "init f w s"
  have r: "ready f w (stopChord ?s0)"
    using assms by (intro ready_stopChord invariant_init)
  from startChord_eq [OF assms, of midiNotes instrument timbre]
  obtain c :: AudioContext where e:
    "startChord f w midiNotes instrument timbre s =
       fold addVoice
         (forEachNote f (random w) 0 (currentTime c) instrument timbre midiNotes 0
            (draws ?s0) (nextNode ?s0))
         (stopChord ?s0)"
    by blast
  have n: "nextNode ?s0 = nextNode (stopChord ?s0)"
    by simp
  have "ready f w (fold addVoice
         (forEachNote f (random w) 0 (currentTime c) instrument timbre midiNotes 0
            (draws ?s0) (nextNode (stopChord ?s0)))
         (stopChord ?s0))"
    using r by (rule ready_forEach)
  then show ?thesis
    unfolding e n [symmetric] .
qed

lemma ready_playNotes:
  "invariant f w s \<Longrightarrow> ready f w (playNotes f w midiNotes instrument timbre s)"
  by (simp add: playNotes_def Let_def ready_startChord)

lemma invariant_step: "invariant f w s \<Longrightarrow> invariant f w (step f w x s)"
proof (cases x)
  case (StartChord x11 x12 x13)
  assume "invariant f w s"
  from ready_startChord [OF this] StartChord show ?thesis by (simp add: invariant_def)
next
  case StopChord
  assume "invariant f w s"
  from invariant_stopChord [OF this] StopChord show ?thesis by simp
next
  case (PlayNotes x31 x32 x33)
  assume "invariant f w s"
  from ready_playNotes [OF this] PlayNotes show ?thesis by (simp add: invariant_def)
next
  case (Elapse x4)
  assume "invariant f w s"
  from invariant_elapse [OF this] Elapse show ?thesis by simp
qed

lemma invariant_run: "invariant f w s \<Longrightarrow> invariant f w (run f w xs s)"
  by (induction xs arbitrary: s) (simp_all add: invariant_step)

lemma fresh_newEngine: "fresh newEngine"
  by (simp add: fresh_def newEngine_def)

lemma invariant_reachable: "invariant f w (run f w xs newEngine)"
  by (rule invariant_run) (simp add: invariant_def fresh_newEngine)

lemma handleNodes_nonempty: "handleNodes h \<noteq> []"
  by (cases h) simp_all

lemma init_nextNode_le: "nextNode s \<le> nextNode (init f w s)"
  by (cases f) (simp_all add: init_ts_def init_p1_def Let_def split: prod.splits sum.splits)

lemma invariant_handles:
  assumes "invariant f w s" "h \<in> set (activeNodes s)" "n \<in> set (handleNodes h)"
  shows "n < nextNode s"
proof -
  from assms(1) consider "fresh s" | "ready f w s"
    unfolding invariant_def by blast
  then show ?thesis
  proof cases
    case 1
    with assms(2) show ?thesis by (simp add: fresh_def)
  next
    case 2
    from ready_handles [OF 2 assms(2,3)] show ?thesis by simp
  qed
qed

lemma startChord_effect:
  assumes inv: "invariant f w s"
  shows "\<exists>c. ctx (init f w s) = Some c \<and> masterGain (init f w s) = Some 0 \<and>
     activeNodes (startChord f w midiNotes instrument timbre s) =
       concat (map vHandles
         (forEachNote f (random w) 0 (currentTime c) instrument timbre midiNotes 0
            (draws (init f w s)) (nextNode (init f w s)))) \<and>
     calls (startChord f w midiNotes instrument timbre s) =
       calls (init f w s)
       @ concat (map (\<lambda>node. release node (currentTime c)) (activeNodes s))
       @ concat (map vCalls
           (forEachNote f (random w) 0 (currentTime c) instrument timbre midiNotes 0
              (draws (init f w s)) (nextNode (init f w s)))) \<and>
     set (activeNodes s) \<inter> set (activeNodes (startChord f w midiNotes instrument timbre s)) = {}"
proof -
  let ?s0 = "init f w s"
  from startChord_eq [OF inv, of midiNotes instrument timbre]
  obtain c where c: "ctx ?s0 = Some c"
    and e: "startChord f w midiNotes instrument timbre s =
       fold addVoice
         (forEachNote f (random w) 0 (currentTime c) instrument timbre midiNotes 0
            (draws ?s0) (nextNode ?s0))
         (stopChord ?s0)"
    by blast
  let ?vs = "forEachNote f (random w) 0 (currentTime c) instrument timbre midiNotes 0
            (draws ?s0) (nextNode ?s0)"
  have m: "masterGain ?s0 = Some 0"
    using invariant_init [OF inv] by (rule ready_masterGain)
  have a: "activeNodes (startChord f w midiNotes instrument timbre s) = concat (map vHandles ?vs)"
    unfolding e using c by (simp add: stopChord_activeNodes)
  have k: "calls (startChord f w midiNotes instrument timbre s) =
       calls ?s0 @ concat (map (\<lambda>node. release node (currentTime c)) (activeNodes s))
       @ concat (map vCalls ?vs)"
    unfolding e using stopChord_calls [OF c] by simp
  have d: "set (activeNodes s) \<inter> set (concat (map vHandles ?vs)) = {}"
  proof (rule ccontr)
    assume "set (activeNodes s) \<inter> set (concat (map vHandles ?vs)) \<noteq> {}"
    then obtain h v where h: "h \<in> set (activeNodes s)" "v \<in> set ?vs" "h \<in> set (vHandles v)"
      by auto
    from handleNodes_nonempty [of h] obtain n where n: "n \<in> set (handleNodes h)"
      by (cases "handleNodes h") auto
    from forEachNote_handles [OF h(2,3) n] have "nextNode ?s0 \<le> n" by simp
    moreover from invariant_handles [OF inv h(1) n] have "n < nextNode s" .
    moreover have "nextNode s \<le> nextNode ?s0" by (rule init_nextNode_le)
    ultimately show False by simp
  qed
  show ?thesis
    using c m a k d by simp
qed

lemma init_running: "ctx (init f w s) = Some c \<Longrightarrow> state c = Running"
  by (cases f; cases "ctx s")
     (auto simp: init_ts_def init_p1_def Let_def resumeIfSuspended_ctx generateReverbImpulse_init)

lemma resumeIfSuspended_running:
  "ctx s = Some c \<Longrightarrow> state c = Running \<Longrightarrow> resumeIfSuspended s = s"
  by (simp add: resumeIfSuspended_def)

lemma init_ready_running:
  "ctx s = Some c \<Longrightarrow> state c = Running \<Longrightarrow> init f w s = s"
  by (cases f) (simp_all add: init_ts_def init_p1_def resumeIfSuspended_running)

lemma startChord_ctx:
  assumes "invariant f w s"
  shows "ctx (startChord f w midiNotes instrument timbre s) = ctx (init f w s)"
proof -
  from startChord_eq [OF assms, of midiNotes instrument timbre]
  obtain c where e: "startChord f w midiNotes instrument timbre s =
       fold addVoice
         (forEachNote f (random w) 0 (currentTime c) instrument timbre midiNotes 0
            (draws (init f w s)) (nextNode (init f w s)))
         (stopChord (init f w s))"
    and "ctx (init f w s) = Some c"
    by blast
  show ?thesis unfolding e by simp
qed

lemma init_startChord:
  assumes "invariant f w s"
  shows "init f w (startChord f w midiNotes instrument timbre s) =
         startChord f w midiNotes instrument timbre s"
proof -
  from init_ctx obtain c where c: "ctx (init f w s) = Some c" by blast
  then have "state c = Running" by (rule init_running)
  moreover have "ctx (startChord f w midiNotes instrument timbre s) = Some c"
    using startChord_ctx [OF assms] c by simp
  ultimately show ?thesis by (intro init_ready_running)
qed

text \<open>
  C1. Single active chord: after \<open>startChord A\<close> and then \<open>startChord B\<close>, the registry
  holds exactly the entries built for \<open>B\<close>; every entry registered for \<open>A\<close> had its
  release handle called, at the current clock time, before any call that builds a Voice
  of \<open>B\<close>; and no entry of \<open>A\<close> is left in the registry. The engine starts from any
  state it can reach, in either file.
\<close>

theorem startChord_single_active_chord:
  "let S = startChord f w A instrumentA timbreA (run f w xs newEngine);
       S' = startChord f w B instrumentB timbreB S
   in \<exists>c master.
        ctx S = Some c \<and> masterGain S = Some master \<and>
        (let voicesB = forEachNote f (random w) master (currentTime c) instrumentB timbreB B 0
                         (draws S) (nextNode S)
         in activeNodes S' = concat (map vHandles voicesB)
            \<and> calls S' =
                calls S
                @ concat (map (\<lambda>node. release node (currentTime c)) (activeNodes S))
                @ concat (map vCalls voicesB)
            \<and> set (activeNodes S) \<inter> set (activeNodes S') = {})"
proof -
  let ?R = "run f w xs newEngine"
  let ?S = "startChord f w A instrumentA timbreA ?R"
  have invR: "invariant f w ?R" by (rule invariant_reachable)
  have "ready f w ?S" using invR by (rule ready_startChord)
  then have invS: "invariant f w ?S" unfolding invariant_def ..
  have i: "init f w ?S = ?S" using invR by (rule init_startChord)
  from startChord_effect [OF invS, of B instrumentB timbreB]
  show ?thesis unfolding i Let_def by blast
qed

theorem startChord_single_active_chord_witness:
  "activeNodes (startChord Part001 (constBrowser 0 hz44100) [60] Piano Grand newEngine) = [NoteCleanup 1 2]
   \<and> activeNodes (startChord Part001 (constBrowser 0 hz44100) [64, 67] Guitar Grand
        (startChord Part001 (constBrowser 0 hz44100) [60] Piano Grand newEngine)) =
       [NoteCleanup 4 5, NoteCleanup 7 8]"
proof -
  let ?w = "constBrowser 0 hz44100"
  let ?S = "startChord Part001 ?w [60] Piano Grand newEngine"
  let ?S' = "startChord Part001 ?w [64, 67] Guitar Grand ?S"
  have S: "ctx ?S = Some \<lparr> state = Running, currentTime = 0, sampleRate = hz44100 \<rparr>"
    "masterGain ?S = Some 0" "draws ?S = 0" "nextNode ?S = 4" "activeNodes ?S = [NoteCleanup 1 2]"
    by (simp_all add: startChord_def init_p1_def resumeIfSuspended_def stopChord_def newEngine_def
      constBrowser_def noteVoice_p1_def tone_p1_def addVoice_def Let_def)
  from startChord_single_active_chord [of Part001 ?w "[60]" Piano Grand "[]" "[64, 67]" Guitar Grand]
  obtain c master where c: "ctx ?S = Some c" "masterGain ?S = Some master"
    and a: "activeNodes ?S' =
       concat (map vHandles (forEachNote Part001 (random ?w) master (currentTime c) Guitar Grand
         [64, 67] 0 (draws ?S) (nextNode ?S)))"
    unfolding Let_def run.simps by blast
  from c S(1,2) have "c = \<lparr> state = Running, currentTime = 0, sampleRate = hz44100 \<rparr>" "master = 0"
    by simp_all
  with a have "activeNodes ?S' = [NoteCleanup 4 5, NoteCleanup 7 8]"
    unfolding S(3,4) by (simp add: noteVoice_p1_def tone_p1_def Let_def)
  with S(5) show ?thesis by simp
qed

lemma noteVoice_p1_handles:
  "length (vHandles (noteVoice_p1 rnd k master now instrument timbre x index free)) =
     (if instrument = Violin then 2 else 1)"
  by (cases instrument) (simp_all add: noteVoice_p1_def tone_p1_def Let_def)

lemma forEachNote_p1_handles:
  "length (concat (map vHandles
      (forEachNote Part001 rnd master now instrument timbre midiNotes index k free))) =
     (if instrument = Violin then 2 * length midiNotes else length midiNotes)"
  by (induction midiNotes arbitrary: index k free) (simp_all add: Let_def noteVoice_p1_handles)

lemma startChord_p1_count:
  assumes "invariant Part001 w s"
  shows "length (activeNodes (startChord Part001 w midiNotes instrument timbre s)) =
     (if instrument = Violin then 2 * length midiNotes else length midiNotes)"
proof -
  from startChord_effect [OF assms, of midiNotes instrument timbre]
  obtain c :: AudioContext where "activeNodes (startChord Part001 w midiNotes instrument timbre s) =
       concat (map vHandles
         (forEachNote Part001 (random w) 0 (currentTime c) instrument timbre midiNotes 0
            (draws (init Part001 w s)) (nextNode (init Part001 w s))))"
    by blast
  then show ?thesis
    by (simp only: forEachNote_p1_handles)
qed

text \<open>
  C3. Voice count in src/unnamed/part_001: from any state the engine can
  reach, \<open>startChord\<close> leaves one registry entry per note for Piano and Guitar, and two per
  note for Violin (the entry of the vibrato LFO and the entry of the note). In particular
  three Piano notes leave three entries and an empty note list leaves none.
\<close>

theorem startChord_voice_count:
  "length (activeNodes (startChord Part001 w midiNotes instrument timbre (run Part001 w xs newEngine))) =
     (if instrument = Violin then 2 * length midiNotes else length midiNotes)"
  using invariant_reachable by (rule startChord_p1_count)

theorem startChord_voice_count_witness:
  "length (activeNodes (startChord Part001 (constBrowser 0 hz44100) [60, 64, 67] Piano Grand newEngine)) = 3
   \<and> length (activeNodes (startChord Part001 (constBrowser 0 hz44100) [] Violin Electric newEngine)) = 0"
  using startChord_voice_count [of "constBrowser 0 hz44100" "[60, 64, 67]" Piano Grand "[]"]
    startChord_voice_count [of "constBrowser 0 hz44100" "[]" Violin Electric "[]"]
  by simp

theorem startChord_voice_count_violin:
  "length (activeNodes (startChord Part001 (constBrowser 0 hz44100) [60, 64, 67] Violin Grand newEngine))
     \<noteq> length [60, 64, 67 :: int]"
  by (simp add: startChord_def init_p1_def resumeIfSuspended_def stopChord_def newEngine_def
      constBrowser_def noteVoice_p1_def tone_p1_def addVoice_def Let_def)

text \<open>
  C4. \<open>stopChord\<close> is idempotent; on an empty registry, and before the
  engine is initialised, it changes nothing; on an initialised engine with a non-empty
  registry it calls the release handle of every entry, in order, at the current clock
  time, and empties the registry, and a reachable state with a non-empty registry is
  initialised. \<open>startChord\<close> and \<open>playNotes\<close> on an engine that is not initialised are not
  no-ops: they initialise it first.
\<close>

theorem stopChord_idempotent_defensive:
  "stopChord (stopChord s) = stopChord s
   \<and> (activeNodes s = [] \<longrightarrow> stopChord s = s)
   \<and> (ctx s = None \<longrightarrow> stopChord s = s)
   \<and> (ctx s = Some c \<longrightarrow> activeNodes s \<noteq> [] \<longrightarrow>
        stopChord s =
          s\<lparr> calls := calls s @ concat (map (\<lambda>node. release node (currentTime c)) (activeNodes s)),
              activeNodes := [] \<rparr>)
   \<and> (activeNodes (run f w xs newEngine) \<noteq> [] \<longrightarrow> ctx (run f w xs newEngine) \<noteq> None)
   \<and> ctx (startChord f w midiNotes instrument timbre (run f w xs newEngine)) \<noteq> None
   \<and> ctx (playNotes f w midiNotes instrument timbre (run f w xs newEngine)) \<noteq> None"
proof -
  have inv: "invariant f w (run f w xs newEngine)" by (rule invariant_reachable)
  have a: "activeNodes (run f w xs newEngine) \<noteq> [] \<longrightarrow> ctx (run f w xs newEngine) \<noteq> None"
    using inv ready_ctx [of f w "run f w xs newEngine"]
    unfolding invariant_def fresh_def by blast
  have b: "ctx (startChord f w midiNotes instrument timbre (run f w xs newEngine)) \<noteq> None"
    using ready_ctx [OF ready_startChord [OF inv]] by simp
  have c: "ctx (playNotes f w midiNotes instrument timbre (run f w xs newEngine)) \<noteq> None"
    using ready_ctx [OF ready_playNotes [OF inv]] by simp
  have d: "stopChord (stopChord s) = stopChord s" by (rule stopChord_idem)
  have e: "activeNodes s = [] \<longrightarrow> stopChord s = s"
    by (simp add: stopChord_def split: option.splits)
  have g: "ctx s = None \<longrightarrow> stopChord s = s"
    by (simp add: stopChord_def)
  have h: "ctx s = Some c \<longrightarrow> activeNodes s \<noteq> [] \<longrightarrow>
        stopChord s =
          s\<lparr> calls := calls s @ concat (map (\<lambda>node. release node (currentTime c)) (activeNodes s)),
              activeNodes := [] \<rparr>"
    by (simp add: stopChord_def Let_def)
  from a b c d e g h show ?thesis by blast
qed

theorem stopChord_idempotent_defensive_witness:
  "ctx newEngine = None \<and> activeNodes newEngine = [] \<and> stopChord newEngine = newEngine
   \<and> (let c = \<lparr> state = Running, currentTime = 1, sampleRate = hz44100 \<rparr>;
            s = newEngine\<lparr> ctx := Some c, masterGain := Some 0,
                  activeNodes := [NoteCleanup 1 2], nextNode := 4 \<rparr>
        in ctx s = Some c \<and> activeNodes s \<noteq> []
           \<and> stopChord s =
               s\<lparr> calls := [CancelScheduledValues (Gain 2) 1,
                              HoldValueAtTime (Gain 2) 1,
                              ExponentialRampToValueAtTime (Gain 2) 0.001 1.3,
                              Stop 1 1.35],
                   activeNodes := [] \<rparr>)"
  using stopChord_idempotent_defensive [of newEngine]
    stopChord_idempotent_defensive
      [of "newEngine\<lparr> ctx := Some \<lparr> state = Running, currentTime = 1, sampleRate = hz44100 \<rparr>,
             masterGain := Some 0, activeNodes := [NoteCleanup 1 2], nextNode := 4 \<rparr>"
          "\<lparr> state = Running, currentTime = 1, sampleRate = hz44100 \<rparr>"]
  by (simp add: newEngine_def Let_def)

theorem startChord_uninitialised_not_noop:
  "ctx newEngine = None
   \<and> startChord Part001 (constBrowser 0 hz44100) [60] Piano Grand newEngine \<noteq> newEngine"
proof (intro conjI notI)
  show "ctx newEngine = None" by (simp add: newEngine_def)
next
  assume e: "startChord Part001 (constBrowser 0 hz44100) [60] Piano Grand newEngine = newEngine"
  have "ctx (startChord Part001 (constBrowser 0 hz44100) [60] Piano Grand newEngine) \<noteq> None"
    by (simp add: startChord_def init_p1_def resumeIfSuspended_def stopChord_def newEngine_def
      constBrowser_def addVoice_def Let_def)
  then have "ctx newEngine \<noteq> None" unfolding e .
  then show False by (simp add: newEngine_def)
qed

subsection \<open>Pitch\<close>

lemma midiToFreq_pos: "0 < midiToFreq n"
  by (simp add: midiToFreq_def)

lemma midiToFreq_less: "m < n \<Longrightarrow> midiToFreq m < midiToFreq n"
  by (simp add: midiToFreq_def powr_less_cancel_iff)

lemma midiToFreq_octave: "midiToFreq (n + 12) = 2 * midiToFreq n"
proof -
  have e: "(real_of_int (n + 12) - 69) / 12 = (real_of_int n - 69) / 12 + 1"
    by (simp add: field_simps)
  have "midiToFreq (n + 12) = 440 * 2 powr ((real_of_int n - 69) / 12 + 1)"
    unfolding midiToFreq_def e ..
  also have "\<dots> = 2 * midiToFreq n"
    by (simp add: powr_add midiToFreq_def)
  finally show ?thesis .
qed

text \<open>
  C2. Pitch conversion: the frequency of note index \<open>n\<close> is \<open>440 * 2^((n-69)/12)\<close>; note 69
  gives 440 and note 81 gives 880; the function is strictly increasing in the note
  index (an octave up doubles the frequency). It is a total function of its argument
  alone.
\<close>

theorem midiToFreq_pitch:
  "(\<forall>n. midiToFreq n = 440 * 2 powr ((real_of_int n - 69) / 12))
   \<and> midiToFreq 69 = 440
   \<and> midiToFreq 81 = 880
   \<and> (\<forall>m n. m < n \<longrightarrow> midiToFreq m < midiToFreq n)
   \<and> (\<forall>n. midiToFreq (n + 12) = 2 * midiToFreq n)"
proof -
  have a: "midiToFreq 69 = 440"
    by (simp add: midiToFreq_def)
  have b: "midiToFreq 81 = 880"
    by (simp add: midiToFreq_def)
  show ?thesis
    using a b midiToFreq_less midiToFreq_octave by (simp add: midiToFreq_def)
qed

theorem midiToFreq_pitch_witness:
  "(60::int) < 61 \<and> midiToFreq 60 < midiToFreq 61"
proof -
  have h: "(60::int) < 61" by simp
  from midiToFreq_pitch have "(60::int) < 61 \<longrightarrow> midiToFreq 60 < midiToFreq 61"
    by blast
  with h show ?thesis by simp
qed

subsection \<open>Staggering\<close>

lemma noteVoice_starts:
  "set (starts (vCalls (noteVoice f rnd k master now instrument timbre x index free))) =
     {now + (if instrument = Piano then 0 else real index * staggerStep f)}"
  by (cases f; cases instrument; cases timbre)
     (simp_all add: noteVoice_ts_def noteVoice_p1_def recipe_ts_def tone_p1_def Let_def
        stagger_ts_def stagger_p1_def)

lemma forEachNote_nth:
  "i < length midiNotes \<Longrightarrow>
   \<exists>k' free'. forEachNote f rnd master now instrument timbre midiNotes index k free ! i =
     noteVoice f rnd k' master now instrument timbre (midiNotes ! i) (index + i) free'"
proof (induction midiNotes arbitrary: i index k free)
  case Nil
  then show ?case by simp
next
  case (Cons x midiNotes)
  show ?case
  proof (cases i)
    case 0
    then show ?thesis by (auto simp: Let_def)
  next
    case (Suc j)
    with Cons.prems have "j < length midiNotes" by simp
    from Cons.IH [OF this, of "index + 1"] Suc show ?thesis
      by (simp add: Let_def)
  qed
qed

lemma forEachNote_starts:
  assumes "i < length midiNotes"
  shows "set (starts (vCalls (forEachNote f rnd master now instrument timbre midiNotes 0 k free ! i))) =
     {now + (if instrument = Piano then 0 else real i * staggerStep f)}"
proof -
  from forEachNote_nth [OF assms, of f rnd master now instrument timbre 0 k free]
  obtain k' free' where
    "forEachNote f rnd master now instrument timbre midiNotes 0 k free ! i =
     noteVoice f rnd k' master now instrument timbre (midiNotes ! i) i free'"
    by auto
  then show ?thesis by (simp only: noteVoice_starts)
qed

text \<open>
  C5. Staggering. In one \<open>startChord\<close> call, from any state the engine can reach, the calls
  that build the chord are those of the voices of its notes, in note order; every
  oscillator of the note at index \<open>i\<close> is started at the clock time of the call plus
  \<open>i\<close> times the stagger step for Guitar and Violin, and at the clock time of the call
  for Piano. So for Guitar and Violin the start time of note \<open>i\<close> exceeds that of note
  \<open>i - 1\<close> by the step, which is 40 ms in src/services/audioEngine.ts and 30 ms in
  src/unnamed/part_001; for Piano all start times are equal.
\<close>

theorem startChord_stagger:
  "let S = run f w xs newEngine;
       s0 = init f w S
   in \<exists>c. ctx s0 = Some c \<and>
        (let voices = forEachNote f (random w) 0 (currentTime c) instrument timbre midiNotes 0
                        (draws s0) (nextNode s0)
         in calls (startChord f w midiNotes instrument timbre S) =
              calls s0
              @ concat (map (\<lambda>node. release node (currentTime c)) (activeNodes S))
              @ concat (map vCalls voices)
            \<and> length voices = length midiNotes
            \<and> (\<forall>i < length midiNotes.
                  set (starts (vCalls (voices ! i))) =
                    {currentTime c + (if instrument = Piano then 0 else real i * staggerStep f)})
            \<and> (\<forall>i t t'. 1 \<le> i \<and> i < length midiNotes
                  \<and> t \<in> set (starts (vCalls (voices ! i)))
                  \<and> t' \<in> set (starts (vCalls (voices ! (i - 1))))
                  \<longrightarrow> t - t' = (if instrument = Piano then 0 else staggerStep f))
            \<and> 0.03 \<le> staggerStep f \<and> staggerStep f \<le> 0.04)"
proof -
  let ?S = "run f w xs newEngine"
  let ?s0 = "init f w ?S"
  have inv: "invariant f w ?S" by (rule invariant_reachable)
  from startChord_effect [OF inv, of midiNotes instrument timbre]
  obtain c where c: "ctx ?s0 = Some c"
    and k: "calls (startChord f w midiNotes instrument timbre ?S) =
       calls ?s0
       @ concat (map (\<lambda>node. release node (currentTime c)) (activeNodes ?S))
       @ concat (map vCalls
           (forEachNote f (random w) 0 (currentTime c) instrument timbre midiNotes 0
              (draws ?s0) (nextNode ?s0)))"
    by blast
  let ?voices = "forEachNote f (random w) 0 (currentTime c) instrument timbre midiNotes 0
              (draws ?s0) (nextNode ?s0)"
  have st: "set (starts (vCalls (?voices ! i))) =
      {currentTime c + (if instrument = Piano then 0 else real i * staggerStep f)}"
    if "i < length midiNotes" for i
    using that by (rule forEachNote_starts)
  have diff: "t - t' = (if instrument = Piano then 0 else staggerStep f)"
    if "1 \<le> i" "i < length midiNotes" "t \<in> set (starts (vCalls (?voices ! i)))"
      "t' \<in> set (starts (vCalls (?voices ! (i - 1))))" for i t t'
  proof -
    from that(1,2) have "i - 1 < length midiNotes" by simp
    from that(3) st [OF that(2)]
    have t: "t = currentTime c + (if instrument = Piano then 0 else real i * staggerStep f)"
      by simp
    from that(4) st [OF \<open>i - 1 < length midiNotes\<close>]
    have t': "t' = currentTime c + (if instrument = Piano then 0 else real (i - 1) * staggerStep f)"
      by simp
    from that(1) have "real (i - 1) = real i - 1" by (simp add: of_nat_diff)
    show ?thesis unfolding t t' \<open>real (i - 1) = real i - 1\<close> by (simp add: algebra_simps)
  qed
  have step: "0.03 \<le> staggerStep f \<and> staggerStep f \<le> 0.04"
    by (cases f) simp_all
  show ?thesis
    unfolding Let_def
  proof (intro exI [of _ c] conjI allI impI)
    show "ctx ?s0 = Some c" by (rule c)
    show "calls (startChord f w midiNotes instrument timbre ?S) =
       calls ?s0
       @ concat (map (\<lambda>node. release node (currentTime c)) (activeNodes ?S))
       @ concat (map vCalls ?voices)" by (rule k)
    show "length ?voices = length midiNotes" by simp
    show "set (starts (vCalls (?voices ! i))) =
      {currentTime c + (if instrument = Piano then 0 else real i * staggerStep f)}"
      if "i < length midiNotes" for i using that by (rule st)
    show "t - t' = (if instrument = Piano then 0 else staggerStep f)"
      if "1 \<le> i \<and> i < length midiNotes \<and> t \<in> set (starts (vCalls (?voices ! i)))
          \<and> t' \<in> set (starts (vCalls (?voices ! (i - 1))))" for i t t'
      using that diff [of i t t'] by blast
    show "0.03 \<le> staggerStep f" using step by blast
    show "staggerStep f \<le> 0.04" using step by blast
  qed
qed

theorem startChord_stagger_witness:
  "(1::nat) < length [60, 64 :: int]
   \<and> set (starts (vCalls (forEachNote Part001 (\<lambda>k. 0) 0 0 Guitar Grand [60, 64] 0 0 1 ! 1))) = {0.03}"
proof -
  let ?w = "constBrowser 0 hz44100"
  let ?s0 = "init Part001 ?w (run Part001 ?w [] newEngine)"
  have s0: "ctx ?s0 = Some \<lparr> state = Running, currentTime = 0, sampleRate = hz44100 \<rparr>"
    "draws ?s0 = 0" "nextNode ?s0 = 1" "random ?w = (\<lambda>k. 0)"
    by (simp_all add: newEngine_def init_p1_def resumeIfSuspended_def constBrowser_def)
  from startChord_stagger [of Part001 ?w "[]" Guitar Grand "[60, 64]"]
  obtain c where c: "ctx ?s0 = Some c"
    and st: "\<forall>i < length [60, 64 :: int].
       set (starts (vCalls (forEachNote Part001 (random ?w) 0 (currentTime c) Guitar Grand
              [60, 64] 0 (draws ?s0) (nextNode ?s0) ! i))) =
         {currentTime c + (if Guitar = Piano then 0 else real i * staggerStep Part001)}"
    unfolding Let_def by blast
  from c s0(1) have "c = \<lparr> state = Running, currentTime = 0, sampleRate = hz44100 \<rparr>"
    by simp
  with st have "\<forall>i < length [60, 64 :: int].
       set (starts (vCalls (forEachNote Part001 (\<lambda>k. 0) 0 0 Guitar Grand
              [60, 64] 0 0 1 ! i))) = {real i * 0.03}"
    unfolding s0(2,3,4) by simp
  from this [rule_format, of 1]
  have "set (starts (vCalls (forEachNote Part001 (\<lambda>k. 0) 0 0 Guitar Grand
              [60, 64] 0 0 1 ! 1))) = {0.03}"
    by (simp del: forEachNote.simps)
  then show ?thesis by (simp del: forEachNote.simps)
qed

subsection \<open>One-shot playback\<close>

lemma stopChord_empty: "activeNodes s = [] \<Longrightarrow> stopChord s = s"
  by (simp add: stopChord_def split: option.splits)

lemma fire_empty:
  "activeNodes s = [] \<Longrightarrow> activeNodes (fire ds s) = [] \<and> calls (fire ds s) = calls s"
  by (induction ds arbitrary: s) (simp_all add: stopChord_empty)

lemma fire_frame [simp]:
  "timers (fire ds s) = timers s"
  "(ctx (fire ds s) = None) = (ctx s = None)"
  by (induction ds arbitrary: s) simp_all

lemma fire_nonempty:
  "ds \<noteq> [] \<Longrightarrow> ctx s \<noteq> None \<Longrightarrow> activeNodes (fire ds s) = []"
proof (cases ds)
  case Nil
  assume "ds \<noteq> []"
  with Nil show ?thesis by simp
next
  case (Cons d ds')
  assume "ctx s \<noteq> None"
  then have "activeNodes (stopChord (setClock (max d (clock s)) s)) = []"
    by (simp add: stopChord_activeNodes)
  from fire_empty [OF this, of ds'] Cons show ?thesis by simp
qed

lemma elapse_due:
  assumes "d \<in> set (timers s)" "d \<le> clock s + ms" "ctx s \<noteq> None"
  shows "activeNodes (elapse ms s) = []"
proof -
  let ?due = "filter (\<lambda>d. d \<le> clock s + ms) (timers s)"
  from assms(1,2) have "d \<in> set ?due" by simp
  then have "sort ?due \<noteq> []" by (metis empty_iff empty_set set_sort)
  moreover from assms(3) have "ctx (s\<lparr>timers := filter (\<lambda>d. clock s + ms < d) (timers s)\<rparr>) \<noteq> None"
    by simp
  ultimately have "activeNodes (fire (sort ?due) (s\<lparr>timers := filter (\<lambda>d. clock s + ms < d) (timers s)\<rparr>)) = []"
    by (rule fire_nonempty)
  then show ?thesis by (simp add: elapse_def Let_def)
qed

lemma elapse_none_due:
  assumes "\<forall>d \<in> set (timers s). clock s + ms < d"
  shows "elapse ms s = setClock (clock s + ms) s"
proof -
  from assms have "filter (\<lambda>d. d \<le> clock s + ms) (timers s) = []"
    by (auto simp: filter_empty_conv)
  moreover from assms have "filter (\<lambda>d. clock s + ms < d) (timers s) = timers s"
    by (auto simp: filter_id_conv)
  ultimately show ?thesis by (simp add: elapse_def Let_def)
qed

lemma elapse_single_timer:
  assumes "timers s = [d]" "clock s \<le> d" "d \<le> clock s + ms" "ctx s = Some c" "state c = Running"
  shows "calls (elapse ms s) =
           calls s @ concat (map (\<lambda>node. release node (currentTime c + (real d - real (clock s)) / 1000))
                              (activeNodes s))
         \<and> activeNodes (elapse ms s) = [] \<and> timers (elapse ms s) = []"
proof -
  let ?s1 = "setClock d (s\<lparr> timers := [] \<rparr>)"
  have e: "elapse ms s = setClock (clock s + ms) (stopChord ?s1)"
    using assms(1,2,3) by (simp add: elapse_def Let_def max_def)
  have c1: "ctx ?s1 = Some (c\<lparr> currentTime := currentTime c + (real d - real (clock s)) / 1000 \<rparr>)"
    using assms(4,5) by (simp add: setClock_def)
  from stopChord_calls [OF c1] have "calls (stopChord ?s1) =
      calls s @ concat (map (\<lambda>node. release node (currentTime c + (real d - real (clock s)) / 1000))
                              (activeNodes s))"
    by simp
  moreover from c1 have "activeNodes (stopChord ?s1) = []"
    by (simp add: stopChord_activeNodes)
  ultimately show ?thesis unfolding e by simp
qed

lemma startChord_timers [simp]:
  "timers (startChord f w midiNotes instrument timbre s) = timers s"
  "clock (startChord f w midiNotes instrument timbre s) = clock s"
  by (simp_all add: startChord_def Let_def split: option.splits)

lemma playNotes_eq:
  "playNotes f w midiNotes instrument timbre s =
     (startChord f w midiNotes instrument timbre s)\<lparr> timers := timers s @ [clock s + 1200] \<rparr>"
  by (simp add: playNotes_def Let_def)

lemma playNotes_frame [simp]:
  "timers (playNotes f w midiNotes instrument timbre s) = timers s @ [clock s + 1200]"
  "clock (playNotes f w midiNotes instrument timbre s) = clock s"
  "ctx (playNotes f w midiNotes instrument timbre s) = ctx (startChord f w midiNotes instrument timbre s)"
  "activeNodes (playNotes f w midiNotes instrument timbre s) =
     activeNodes (startChord f w midiNotes instrument timbre s)"
  "calls (playNotes f w midiNotes instrument timbre s) =
     calls (startChord f w midiNotes instrument timbre s)"
  by (simp_all add: playNotes_eq)

lemma startChord_running:
  assumes "invariant f w s"
  shows "\<exists>c. ctx (startChord f w midiNotes instrument timbre s) = Some c \<and> state c = Running"
proof -
  from init_ctx obtain c where c: "ctx (init f w s) = Some c" by blast
  then have "state c = Running" by (rule init_running)
  with startChord_ctx [OF assms, of midiNotes instrument timbre] c show ?thesis by simp
qed

text \<open>
  C6. One-shot playback in src/unnamed/part_001. \<open>playNotes\<close> is \<open>startChord\<close> plus one
  timer with the deadline 1200 ms ahead; once 1200 ms or more have passed the registry
  is empty, with no explicit \<open>stopChord\<close>; when no other timer is pending, nothing happens
  before that. \<open>startChord\<close> and \<open>stopChord\<close> leave the pending timers as they are, so
  the timer still fires after them: after a newer \<open>startChord\<close> it releases the newer
  chord's entries (1.2 s after the \<open>playNotes\<close> call), and after a \<open>stopChord\<close> it makes
  no call.
\<close>

theorem playNotes_one_shot:
  "let S = run Part001 w xs newEngine;
       P = playNotes Part001 w A instrumentA timbreA S;
       X = startChord Part001 w B instrumentB timbreB P
   in P = (startChord Part001 w A instrumentA timbreA S)\<lparr> timers := timers S @ [clock S + 1200] \<rparr>
      \<and> (1200 \<le> ms \<longrightarrow> activeNodes (elapse ms P) = [])
      \<and> (timers S = [] \<longrightarrow> ms < 1200 \<longrightarrow>
            activeNodes (elapse ms P) = activeNodes P \<and> calls (elapse ms P) = calls P
            \<and> timers (elapse ms P) = timers P)
      \<and> timers X = timers P
      \<and> timers (stopChord P) = timers P
      \<and> (timers S = [] \<longrightarrow> 1200 \<le> ms \<longrightarrow>
            (\<exists>c. ctx X = Some c
               \<and> calls (elapse ms X) =
                   calls X @ concat (map (\<lambda>node. release node (currentTime c + 1.2)) (activeNodes X))
               \<and> activeNodes (elapse ms X) = []))
      \<and> (timers S = [] \<longrightarrow> 1200 \<le> ms \<longrightarrow>
            calls (elapse ms (stopChord P)) = calls (stopChord P)
            \<and> activeNodes (elapse ms (stopChord P)) = [])"
proof -
  let ?S = "run Part001 w xs newEngine"
  let ?P = "playNotes Part001 w A instrumentA timbreA ?S"
  let ?X = "startChord Part001 w B instrumentB timbreB ?P"
  have invS: "invariant Part001 w ?S" by (rule invariant_reachable)
  have "ready Part001 w ?P" using invS by (rule ready_playNotes)
  then have invP: "invariant Part001 w ?P" unfolding invariant_def ..
  from startChord_running [OF invS, of A instrumentA timbreA]
  obtain cP where cP: "ctx ?P = Some cP" "state cP = Running" by auto
  from startChord_running [OF invP, of B instrumentB timbreB]
  obtain cX where cX: "ctx ?X = Some cX" "state cX = Running" by auto
  have 1: "?P = (startChord Part001 w A instrumentA timbreA ?S)\<lparr> timers := timers ?S @ [clock ?S + 1200] \<rparr>"
    by (rule playNotes_eq)
  have 2: "activeNodes (elapse ms ?P) = []" if "1200 \<le> ms"
  proof (rule elapse_due [where d = "clock ?S + 1200"])
    show "clock ?S + 1200 \<in> set (timers ?P)" by simp
    show "clock ?S + 1200 \<le> clock ?P + ms" using that by simp
    show "ctx ?P \<noteq> None" using cP by simp
  qed
  have 3: "activeNodes (elapse ms ?P) = activeNodes ?P \<and> calls (elapse ms ?P) = calls ?P
            \<and> timers (elapse ms ?P) = timers ?P" if "timers ?S = []" "ms < 1200"
  proof -
    have "\<forall>d \<in> set (timers ?P). clock ?P + ms < d" using that by simp
    then have "elapse ms ?P = setClock (clock ?P + ms) ?P" by (rule elapse_none_due)
    then show ?thesis by simp
  qed
  have 4: "timers ?X = timers ?P" by simp
  have 5: "timers (stopChord ?P) = timers ?P" by simp
  have 6: "\<exists>c. ctx ?X = Some c
               \<and> calls (elapse ms ?X) =
                   calls ?X @ concat (map (\<lambda>node. release node (currentTime c + 1.2)) (activeNodes ?X))
               \<and> activeNodes (elapse ms ?X) = []" if "timers ?S = []" "1200 \<le> ms"
  proof -
    have t: "timers ?X = [clock ?X + 1200]" using that(1) by simp
    have "clock ?X \<le> clock ?X + 1200" by simp
    moreover have "clock ?X + 1200 \<le> clock ?X + ms" using that(2) by simp
    ultimately have "calls (elapse ms ?X) =
           calls ?X @ concat (map (\<lambda>node. release node
              (currentTime cX + (real (clock ?X + 1200) - real (clock ?X)) / 1000)) (activeNodes ?X))
         \<and> activeNodes (elapse ms ?X) = [] \<and> timers (elapse ms ?X) = []"
      using elapse_single_timer [OF t _ _ cX] by blast
    moreover have "(real (clock ?X + 1200) - real (clock ?X)) / 1000 = 1.2" by simp
    ultimately show ?thesis using cX(1) by simp
  qed
  have 7: "calls (elapse ms (stopChord ?P)) = calls (stopChord ?P)
            \<and> activeNodes (elapse ms (stopChord ?P)) = []" if "timers ?S = []" "1200 \<le> ms"
  proof -
    let ?Q = "stopChord ?P"
    have t: "timers ?Q = [clock ?Q + 1200]" using that(1) by simp
    have cQ: "ctx ?Q = Some cP" using cP(1) by simp
    have a: "activeNodes ?Q = []" using cP(1) by (simp add: stopChord_activeNodes)
    have "clock ?Q \<le> clock ?Q + 1200" by simp
    moreover have "clock ?Q + 1200 \<le> clock ?Q + ms" using that(2) by simp
    ultimately have "calls (elapse ms ?Q) =
           calls ?Q @ concat (map (\<lambda>node. release node
              (currentTime cP + (real (clock ?Q + 1200) - real (clock ?Q)) / 1000)) (activeNodes ?Q))
         \<and> activeNodes (elapse ms ?Q) = [] \<and> timers (elapse ms ?Q) = []"
      using elapse_single_timer [OF t _ _ cQ cP(2)] by blast
    then show ?thesis unfolding a by simp
  qed
  show ?thesis
    unfolding Let_def using 1 2 3 4 5 6 7 by blast
qed

theorem playNotes_one_shot_witness:
  "(1200::nat) \<le> 1200 \<and> timers newEngine = []
   \<and> activeNodes (elapse 1200 (playNotes Part001 (constBrowser 0 hz44100) [60] Piano Grand newEngine)) = []
   \<and> activeNodes (elapse 1200 (startChord Part001 (constBrowser 0 hz44100) [64] Piano Grand
         (playNotes Part001 (constBrowser 0 hz44100) [60] Piano Grand newEngine))) = []"
proof -
  let ?w = "constBrowser 0 hz44100"
  have t: "timers (run Part001 ?w [] newEngine) = []"
    by (simp add: newEngine_def)
  from playNotes_one_shot [of ?w "[]" "[60]" Piano Grand "[64]" Piano Grand 1200]
  have "activeNodes (elapse 1200 (playNotes Part001 ?w [60] Piano Grand (run Part001 ?w [] newEngine))) = []"
    and "activeNodes (elapse 1200 (startChord Part001 ?w [64] Piano Grand
         (playNotes Part001 ?w [60] Piano Grand (run Part001 ?w [] newEngine)))) = []"
    unfolding Let_def using t by blast+
  moreover have "timers newEngine = []" by (simp add: newEngine_def)
  ultimately show ?thesis by simp
qed

subsection \<open>The reverb impulse\<close>

lemma envelope_nonneg: "0 \<le> envelope len decay i"
  by (simp add: envelope_def)

lemma below_floor: "j < nat \<lfloor>len\<rfloor> \<Longrightarrow> real j < len"
proof -
  assume "j < nat \<lfloor>len\<rfloor>"
  then have "int j + 1 \<le> \<lfloor>len\<rfloor>" by linarith
  then have "real_of_int (int j + 1) \<le> len" by (simp only: le_floor_iff)
  then show ?thesis by simp
qed

lemma envelope_antitone:
  assumes "0 \<le> decay" "i \<le> j" "real j < len"
  shows "envelope len decay j \<le> envelope len decay i"
proof -
  from assms(3) have len: "0 < len" by (smt (verit) of_nat_0_le_iff)
  from assms(3) len have a: "0 \<le> 1 - real j / len" by simp
  from assms(2) len have "real i / len \<le> real j / len"
    by (simp add: divide_right_mono)
  then have b: "1 - real j / len \<le> 1 - real i / len" by simp
  from assms(1) a b show ?thesis
    unfolding envelope_def by (rule powr_mono2)
qed

lemma sample_bound:
  assumes "0 \<le> r" "r < 1"
  shows "\<bar>(r * 2 - 1) * envelope len decay i\<bar> \<le> envelope len decay i"
proof -
  from assms have "\<bar>r * 2 - 1\<bar> \<le> 1" by (simp add: abs_le_iff)
  then have "\<bar>r * 2 - 1\<bar> * envelope len decay i \<le> 1 * envelope len decay i"
    using envelope_nonneg [of len decay i] by (rule mult_right_mono)
  then show ?thesis
    using envelope_nonneg [of len decay i] by (simp add: abs_mult)
qed

lemma map_shift_upt: "map (\<lambda>i. i + n) [a..<b] = [a + n..<b + n]"
  by (induction b) simp_all

lemma window_map_upt:
  assumes "(j + 1) * n \<le> N"
  shows "window n j (map f [0..<N]) = map f [j * n..<j * n + n]"
proof -
  from assms have "j * n + n \<le> N" by (simp add: algebra_simps)
  then show ?thesis
    by (simp add: window_def take_map drop_map drop_upt take_upt)
qed

lemma energy_window_mono:
  assumes "0 \<le> decay" "0 < n" "(j + 2) * n \<le> nat \<lfloor>len\<rfloor>"
  shows "energy (window n (j + 1) (map (envelope len decay) [0..<nat \<lfloor>len\<rfloor>]))
         \<le> energy (window n j (map (envelope len decay) [0..<nat \<lfloor>len\<rfloor>]))"
proof -
  let ?N = "nat \<lfloor>len\<rfloor>"
  let ?e = "envelope len decay"
  from assms(3) have b: "j * n + n + n \<le> ?N" by (simp add: algebra_simps)
  then have "(j + 1) * n \<le> ?N" by (simp add: algebra_simps)
  then have w0: "window n j (map ?e [0..<?N]) = map ?e [j * n..<j * n + n]"
    by (rule window_map_upt)
  from assms(3) have "(j + 1 + 1) * n \<le> ?N" by (simp add: algebra_simps)
  then have "window n (j + 1) (map ?e [0..<?N]) = map ?e [(j + 1) * n..<(j + 1) * n + n]"
    by (rule window_map_upt)
  also have "[(j + 1) * n..<(j + 1) * n + n] = map (\<lambda>i. i + n) [j * n..<j * n + n]"
    by (simp add: map_shift_upt algebra_simps)
  finally have w1: "window n (j + 1) (map ?e [0..<?N]) = map (\<lambda>i. ?e (i + n)) [j * n..<j * n + n]"
    by (simp add: comp_def)
  have "(\<Sum>i\<leftarrow>[j * n..<j * n + n]. (?e (i + n))\<^sup>2) \<le> (\<Sum>i\<leftarrow>[j * n..<j * n + n]. (?e i)\<^sup>2)"
  proof (rule sum_list_mono)
    fix i assume "i \<in> set [j * n..<j * n + n]"
    then have "i + n < ?N" using b by simp
    then have "real (i + n) < len" by (rule below_floor)
    with assms(1) have "?e (i + n) \<le> ?e i" by (intro envelope_antitone) simp_all
    then show "(?e (i + n))\<^sup>2 \<le> (?e i)\<^sup>2"
      using envelope_nonneg [of len decay "i + n"] by (rule power_mono)
  qed
  then have "(\<Sum>i\<leftarrow>[j * n..<j * n + n]. (?e (i + n))\<^sup>2) / real n
           \<le> (\<Sum>i\<leftarrow>[j * n..<j * n + n]. (?e i)\<^sup>2) / real n"
    by (rule divide_right_mono) simp
  then show ?thesis
    unfolding w0 w1 by (simp add: energy_def comp_def)
qed

lemma late_energy:
  assumes n: "0 < n"
    and z: "\<And>i. i < n \<Longrightarrow> f i = 0"
    and p: "f n \<noteq> 0"
  shows "energy (window n 0 (map f [0..<2 * n])) < energy (window n 1 (map f [0..<2 * n]))"
proof -
  have "(0 + 1) * n \<le> 2 * n" by simp
  then have "window n 0 (map f [0..<2 * n]) = map f [0 * n..<0 * n + n]"
    by (rule window_map_upt)
  then have w0: "window n 0 (map f [0..<2 * n]) = map f [0..<n]" by simp
  have "(1 + 1) * n \<le> 2 * n" by simp
  then have "window n 1 (map f [0..<2 * n]) = map f [1 * n..<1 * n + n]"
    by (rule window_map_upt)
  then have w1: "window n 1 (map f [0..<2 * n]) = map f [n..<n + n]" by simp
  have "(\<Sum>i\<leftarrow>[0..<n]. (f i)\<^sup>2) = (\<Sum>i\<leftarrow>[0..<n]. 0)"
    by (rule arg_cong [where f = sum_list], rule map_cong) (simp_all add: z)
  then have e0: "energy (map f [0..<n]) = 0"
    by (simp add: energy_def comp_def)
  from n have u: "[n..<n + n] = n # [Suc n..<n + n]" by (simp add: upt_rec)
  have nn: "0 \<le> (\<Sum>i\<leftarrow>[Suc n..<n + n]. (f i)\<^sup>2)"
    by (rule sum_list_nonneg) auto
  from p have q: "0 < (f n)\<^sup>2" by simp
  from add_pos_nonneg [OF q nn] have "0 < (\<Sum>i\<leftarrow>[n..<n + n]. (f i)\<^sup>2)"
    unfolding u by simp
  with n have e1: "0 < energy (map f [n..<n + n])"
    by (simp add: energy_def comp_def)
  show ?thesis unfolding w0 w1 e0 by (rule e1)
qed

lemma impulseLeft_init:
  "impulseLeft c rnd k 2 2 =
     map (\<lambda>j. (rnd (k + 2 * j) * 2 - 1) * envelope (2 * real (Rep_hertz (sampleRate c))) 2 j)
       [0..<2 * Rep_hertz (sampleRate c)]"
  unfolding impulseLeft_def generateReverbImpulse_init by simp

lemma late_impulse_energy:
  assumes r: "Rep_hertz (sampleRate c) = n"
    and z: "\<And>i. i < n \<Longrightarrow> rnd (2 * i) = 1 / 2"
    and p: "rnd (2 * n) = 0"
  shows "energy (window n 0 (impulseLeft c rnd 0 2 2)) < energy (window n 1 (impulseLeft c rnd 0 2 2))"
proof -
  from Rep_hertz_bounds(1) [of "sampleRate c"] r have n: "0 < n" by simp
  have e: "envelope (2 * real n) 2 n = (1 / 2) powr 2"
    using n by (simp add: envelope_def)
  show ?thesis
    unfolding impulseLeft_init r
    by (rule late_energy) (simp_all add: n z p e)
qed

text \<open>
  C7. The impulse generator of src/services/audioEngine.ts. When
  \<open>sampleRate * duration\<close> is at least 1 (and below \<open>2^32\<close>), each channel has as many
  samples as \<^verbatim>\<open>createBuffer\<close> allots, \<open>sampleRate * duration\<close> cut to a whole number, which
  is \<open>sampleRate * duration\<close> itself when that is whole; when it is below 1 (and not
  negative) \<^verbatim>\<open>createBuffer\<close> raises and there is no buffer. Sample \<open>i\<close> of the left channel
  is \<open>(random * 2 - 1) * (1 - i / length)^decay\<close>, with \<open>length = sampleRate * duration\<close> and
  the random result of index \<open>k + 2 i\<close>, and that of the right channel with the next
  result (the channels use separate draws). With random results in \<open>[0, 1)\<close> every sample
  is bounded in magnitude by the envelope \<open>(1 - i / length)^decay\<close>. For a decay exponent
  that is not negative the envelope is non-increasing in \<open>i\<close>, and the mean squared
  amplitude of the envelope over successive full windows of equal length is
  non-increasing. (For the random buffer itself the windowed energy may increase.)
\<close>

theorem generateReverbImpulse_shape:
  "let len = real (Rep_hertz (sampleRate c)) * duration;
       F = nat \<lfloor>len\<rfloor>
   in (0 \<le> len \<and> len < 1 \<longrightarrow>
         generateReverbImpulse c rnd k duration decay = Inl NotSupportedError)
      \<and> (1 \<le> len \<and> len < 2 ^ 32 \<longrightarrow>
           (\<exists>left right.
              generateReverbImpulse c rnd k duration decay = Inr (left, right, k + 2 * nat \<lceil>len\<rceil>)
              \<and> length left = F \<and> length right = F
              \<and> (\<forall>n. len = real n \<longrightarrow> F = n)
              \<and> (\<forall>i < F. left ! i = (rnd (k + 2 * i) * 2 - 1) * envelope len decay i
                          \<and> right ! i = (rnd (k + 2 * i + 1) * 2 - 1) * envelope len decay i)
              \<and> ((\<forall>j. 0 \<le> rnd j \<and> rnd j < 1) \<longrightarrow>
                    (\<forall>i < F. \<bar>left ! i\<bar> \<le> envelope len decay i
                             \<and> \<bar>right ! i\<bar> \<le> envelope len decay i))))
      \<and> (0 \<le> decay \<longrightarrow>
            (\<forall>i j. i \<le> j \<and> real j < len \<longrightarrow> envelope len decay j \<le> envelope len decay i))
      \<and> (0 \<le> decay \<longrightarrow>
            (\<forall>n j. 0 < n \<and> (j + 2) * n \<le> F \<longrightarrow>
               energy (window n (j + 1) (map (envelope len decay) [0..<F]))
               \<le> energy (window n j (map (envelope len decay) [0..<F]))))"
proof -
  let ?len = "real (Rep_hertz (sampleRate c)) * duration"
  let ?F = "nat \<lfloor>?len\<rfloor>"
  let ?left = "map (\<lambda>j. (rnd (k + 2 * j) * 2 - 1) * envelope ?len decay j) [0..<?F]"
  let ?right = "map (\<lambda>j. (rnd (k + 2 * j + 1) * 2 - 1) * envelope ?len decay j) [0..<?F]"
  have 0: "generateReverbImpulse c rnd k duration decay = Inl NotSupportedError"
    if "0 \<le> ?len \<and> ?len < 1"
    using that by (simp add: generateReverbImpulse_def Let_def createBuffer_refused)
  have g: "generateReverbImpulse c rnd k duration decay = Inr (?left, ?right, k + 2 * nat \<lceil>?len\<rceil>)"
    if "1 \<le> ?len \<and> ?len < 2 ^ 32"
    using that by (intro generateReverbImpulse_eq) simp_all
  have 1: "length ?left = ?F \<and> length ?right = ?F" by simp
  have 2: "\<forall>n. ?len = real n \<longrightarrow> ?F = n" by simp
  have 3: "\<forall>i < ?F. ?left ! i = (rnd (k + 2 * i) * 2 - 1) * envelope ?len decay i
                  \<and> ?right ! i = (rnd (k + 2 * i + 1) * 2 - 1) * envelope ?len decay i"
    by simp
  have 4: "(\<forall>j. 0 \<le> rnd j \<and> rnd j < 1) \<longrightarrow>
            (\<forall>i < ?F. \<bar>?left ! i\<bar> \<le> envelope ?len decay i \<and> \<bar>?right ! i\<bar> \<le> envelope ?len decay i)"
  proof (intro impI allI conjI)
    fix i assume r: "\<forall>j. 0 \<le> rnd j \<and> rnd j < 1" and i: "i < ?F"
    from r have "0 \<le> rnd (k + 2 * i)" "rnd (k + 2 * i) < 1" by blast+
    then have "\<bar>(rnd (k + 2 * i) * 2 - 1) * envelope ?len decay i\<bar> \<le> envelope ?len decay i"
      by (rule sample_bound)
    then show "\<bar>?left ! i\<bar> \<le> envelope ?len decay i" using i by simp
    from r have "0 \<le> rnd (k + 2 * i + 1)" "rnd (k + 2 * i + 1) < 1" by blast+
    then have "\<bar>(rnd (k + 2 * i + 1) * 2 - 1) * envelope ?len decay i\<bar> \<le> envelope ?len decay i"
      by (rule sample_bound)
    then show "\<bar>?right ! i\<bar> \<le> envelope ?len decay i" using i by simp
  qed
  have 5: "0 \<le> decay \<longrightarrow>
            (\<forall>i j. i \<le> j \<and> real j < ?len \<longrightarrow> envelope ?len decay j \<le> envelope ?len decay i)"
    using envelope_antitone [of decay _ _ ?len] by blast
  have 6: "0 \<le> decay \<longrightarrow>
            (\<forall>n j. 0 < n \<and> (j + 2) * n \<le> ?F \<longrightarrow>
               energy (window n (j + 1) (map (envelope ?len decay) [0..<?F]))
               \<le> energy (window n j (map (envelope ?len decay) [0..<?F])))"
    using energy_window_mono [of decay _ _ ?len] by blast
  have 7: "\<exists>left right.
              generateReverbImpulse c rnd k duration decay = Inr (left, right, k + 2 * nat \<lceil>?len\<rceil>)
              \<and> length left = ?F \<and> length right = ?F
              \<and> (\<forall>n. ?len = real n \<longrightarrow> ?F = n)
              \<and> (\<forall>i < ?F. left ! i = (rnd (k + 2 * i) * 2 - 1) * envelope ?len decay i
                          \<and> right ! i = (rnd (k + 2 * i + 1) * 2 - 1) * envelope ?len decay i)
              \<and> ((\<forall>j. 0 \<le> rnd j \<and> rnd j < 1) \<longrightarrow>
                    (\<forall>i < ?F. \<bar>left ! i\<bar> \<le> envelope ?len decay i
                             \<and> \<bar>right ! i\<bar> \<le> envelope ?len decay i))"
    if "1 \<le> ?len \<and> ?len < 2 ^ 32"
    using g [OF that] 1 2 3 4 by blast
  show ?thesis
    unfolding Let_def using 0 5 6 7 by blast
qed

theorem generateReverbImpulse_shape_witness:
  "(1::real) \<le> real (Rep_hertz hz44100) * 2 \<and> real (Rep_hertz hz44100) * 2 < 2 ^ 32
   \<and> (0::real) \<le> 2 \<and> (1::nat) \<le> 2 \<and> real 2 < real (Rep_hertz hz44100) * 2
   \<and> (\<exists>left right.
        generateReverbImpulse \<lparr> state = Running, currentTime = 0, sampleRate = hz44100 \<rparr>
          lateNoise 0 2 2 = Inr (left, right, 176400)
        \<and> length left = 88200 \<and> length right = 88200)
   \<and> envelope 88200 2 2 \<le> envelope 88200 2 1"
proof -
  let ?c = "\<lparr> state = Running, currentTime = 0, sampleRate = hz44100 \<rparr>"
  have l: "real (Rep_hertz (sampleRate ?c)) * 2 = 88200"
    by (simp add: hz44100.rep_eq)
  note t = generateReverbImpulse_shape [of ?c 2 lateNoise 0 2, unfolded Let_def l]
  from t have "(1::real) \<le> 88200 \<and> (88200::real) < 2 ^ 32 \<longrightarrow>
      (\<exists>left right.
        generateReverbImpulse ?c lateNoise 0 2 2 = Inr (left, right, 0 + 2 * nat \<lceil>88200::real\<rceil>)
        \<and> length left = nat \<lfloor>88200::real\<rfloor> \<and> length right = nat \<lfloor>88200::real\<rfloor>)"
    by blast
  then have a: "\<exists>left right.
        generateReverbImpulse ?c lateNoise 0 2 2 = Inr (left, right, 176400)
        \<and> length left = 88200 \<and> length right = 88200"
    by simp
  from t have "(0::real) \<le> 2 \<longrightarrow>
      (\<forall>i j. i \<le> j \<and> real j < 88200 \<longrightarrow> envelope 88200 2 j \<le> envelope 88200 2 i)"
    by blast
  then have "\<forall>i j. i \<le> j \<and> real j < 88200 \<longrightarrow> envelope 88200 2 j \<le> envelope 88200 2 i"
    by simp
  then have "(1::nat) \<le> 2 \<and> real (2::nat) < 88200 \<longrightarrow> envelope 88200 2 2 \<le> envelope 88200 2 1"
    by blast
  then have b: "envelope 88200 2 2 \<le> envelope 88200 2 1" by simp
  from a b show ?thesis by (simp add: hz44100.rep_eq)
qed

theorem windowed_energy_increases:
  "energy (window 44100 0 (impulseLeft \<lparr> state = Running, currentTime = 0, sampleRate = hz44100 \<rparr>
       lateNoise 0 2 2))
   < energy (window 44100 1 (impulseLeft \<lparr> state = Running, currentTime = 0, sampleRate = hz44100 \<rparr>
       lateNoise 0 2 2))
   \<and> generateReverbImpulse \<lparr> state = Running, currentTime = 0, sampleRate = hz44100 \<rparr>
       lateNoise 0 (1 / 65536) 2 = Inl NotSupportedError
   \<and> length (impulseLeft \<lparr> state = Running, currentTime = 0, sampleRate = hz44100 \<rparr>
       lateNoise 0 (1 / 32768) 2) = 1
   \<and> real (Rep_hertz hz44100) * (1 / 32768) = 11025 / 8192"
proof -
  let ?c = "\<lparr> state = Running, currentTime = 0, sampleRate = hz44100 \<rparr>"
  have 1: "energy (window 44100 0 (impulseLeft ?c lateNoise 0 2 2))
         < energy (window 44100 1 (impulseLeft ?c lateNoise 0 2 2))"
    by (rule late_impulse_energy) (simp_all add: hz44100.rep_eq lateNoise_def)
  have "0 \<le> real (Rep_hertz (sampleRate ?c)) * (1 / 65536)"
    and "real (Rep_hertz (sampleRate ?c)) * (1 / 65536) < 1"
    by (simp_all add: hz44100.rep_eq)
  then have "createBuffer (real (Rep_hertz (sampleRate ?c)) * (1 / 65536)) = Inl NotSupportedError"
    by (rule createBuffer_refused)
  then have 2: "generateReverbImpulse ?c lateNoise 0 (1 / 65536) 2 = Inl NotSupportedError"
    unfolding generateReverbImpulse_def Let_def by simp
  have "1 \<le> real (Rep_hertz (sampleRate ?c)) * (1 / 32768)"
    and "real (Rep_hertz (sampleRate ?c)) * (1 / 32768) < 2 ^ 32"
    by (simp_all add: hz44100.rep_eq)
  from generateReverbImpulse_eq [OF this, of lateNoise 0 2]
  have "length (impulseLeft ?c lateNoise 0 (1 / 32768) 2)
        = nat \<lfloor>real (Rep_hertz (sampleRate ?c)) * (1 / 32768)\<rfloor>"
    unfolding impulseLeft_def by simp
  also have "\<dots> = 1" by (simp add: hz44100.rep_eq)
  finally have 3: "length (impulseLeft ?c lateNoise 0 (1 / 32768) 2) = 1" .
  have 4: "real (Rep_hertz hz44100) * (1 / 32768) = 11025 / 8192"
    by (simp add: hz44100.rep_eq)
  from 1 2 3 4 show ?thesis by blast
qed

subsection \<open>The mix bus\<close>

lemma fire_draws [simp]: "draws (fire ds s) = draws s"
  by (induction ds arbitrary: s) simp_all

lemma elapse_frame [simp]:
  "draws (elapse ms s) = draws s"
  "(ctx (elapse ms s) = None) = (ctx s = None)"
  by (simp_all add: elapse_def Let_def)

lemma noteVoice_ts_draws: "vDraws (noteVoice_ts master now instrument timbre x index free) = 0"
  by (simp add: noteVoice_ts_def Let_def split: prod.splits)

lemma forEachNote_ts_draws:
  "sum_list (map vDraws (forEachNote AudioEngineTs rnd master now instrument timbre midiNotes index k free)) = 0"
  by (induction midiNotes arbitrary: index k free) (simp_all add: Let_def noteVoice_ts_draws)

lemma init_ts_draws:
  "draws (init_ts w s) =
     (if ctx s = None then draws s + 4 * Rep_hertz (sampleRate (newContext w)) else draws s)"
  by (simp add: init_ts_def Let_def generateReverbImpulse_init)

lemma startChord_ts_draws:
  assumes "invariant AudioEngineTs w s"
  shows "draws (startChord AudioEngineTs w midiNotes instrument timbre s) =
     (if ctx s = None then draws s + 4 * Rep_hertz (sampleRate (newContext w)) else draws s)"
proof -
  from startChord_eq [OF assms, of midiNotes instrument timbre]
  obtain c :: AudioContext where e: "startChord AudioEngineTs w midiNotes instrument timbre s =
       fold addVoice
         (forEachNote AudioEngineTs (random w) 0 (currentTime c) instrument timbre midiNotes 0
            (draws (init AudioEngineTs w s)) (nextNode (init AudioEngineTs w s)))
         (stopChord (init AudioEngineTs w s))"
    by blast
  show ?thesis
    unfolding e by (simp add: forEachNote_ts_draws init_ts_draws)
qed

lemma ts_draws_step:
  assumes inv: "invariant AudioEngineTs w s"
    and d: "draws s = (if ctx s = None then 0 else 4 * Rep_hertz (sampleRate (newContext w)))"
  shows "draws (step AudioEngineTs w x s) =
     (if ctx (step AudioEngineTs w x s) = None then 0
      else 4 * Rep_hertz (sampleRate (newContext w)))"
proof (cases x)
  case (StartChord ns i t)
  from ready_ctx [OF ready_startChord [OF inv, of ns i t]]
  obtain c' where "ctx (startChord AudioEngineTs w ns i t s) = Some c'" by blast
  moreover have "draws (startChord AudioEngineTs w ns i t s) =
      4 * Rep_hertz (sampleRate (newContext w))"
    using startChord_ts_draws [OF inv, of ns i t] d by (cases "ctx s") simp_all
  ultimately show ?thesis using StartChord by simp
next
  case StopChord
  with d show ?thesis by simp
next
  case (PlayNotes ns i t)
  from ready_ctx [OF ready_startChord [OF inv, of ns i t]]
  obtain c' where "ctx (startChord AudioEngineTs w ns i t s) = Some c'" by blast
  moreover have "draws (startChord AudioEngineTs w ns i t s) =
      4 * Rep_hertz (sampleRate (newContext w))"
    using startChord_ts_draws [OF inv, of ns i t] d by (cases "ctx s") simp_all
  ultimately show ?thesis using PlayNotes by (simp add: playNotes_eq)
next
  case (Elapse ms)
  with d show ?thesis by simp
qed

lemma ts_draws_run:
  assumes "invariant AudioEngineTs w s"
    and "draws s = (if ctx s = None then 0 else 4 * Rep_hertz (sampleRate (newContext w)))"
  shows "draws (run AudioEngineTs w xs s) =
     (if ctx (run AudioEngineTs w xs s) = None then 0
      else 4 * Rep_hertz (sampleRate (newContext w)))"
  using assms
proof (induction xs arbitrary: s)
  case Nil
  then show ?case by simp
next
  case (Cons x xs)
  have "invariant AudioEngineTs w (step AudioEngineTs w x s)"
    using Cons.prems(1) by (rule invariant_step)
  moreover have "draws (step AudioEngineTs w x s) =
     (if ctx (step AudioEngineTs w x s) = None then 0
      else 4 * Rep_hertz (sampleRate (newContext w)))"
    using Cons.prems by (rule ts_draws_step)
  ultimately show ?case
    using Cons.IH [of "step AudioEngineTs w x s"] by simp
qed

lemma reachable_bus:
  "filter (busCall (run f w xs newEngine)) (calls (run f w xs newEngine)) =
     (if ctx (run f w xs newEngine) = None then [] else initCalls f w)
   \<and> masterGain (run f w xs newEngine) = (if ctx (run f w xs newEngine) = None then None else Some 0)
   \<and> reverbNode (run f w xs newEngine) =
       (if ctx (run f w xs newEngine) = None \<or> f = Part001 then None else Some 1)
   \<and> reverbGain (run f w xs newEngine) =
       (if ctx (run f w xs newEngine) = None \<or> f = Part001 then None else Some 2)"
proof -
  let ?S = "run f w xs newEngine"
  have "invariant f w ?S" by (rule invariant_reachable)
  then consider "fresh ?S" | "ready f w ?S" unfolding invariant_def by blast
  then show ?thesis
  proof cases
    case 1
    then show ?thesis by (simp add: fresh_def)
  next
    case 2
    from ready_ctx [OF 2] obtain c' where c: "ctx ?S = Some c'" by blast
    have m: "masterGain ?S = Some 0" using 2 by (rule ready_masterGain)
    have b: "filter (busCall ?S) (calls ?S) = initCalls f w" using 2 by (rule ready_busCalls)
    have r: "reverbNode ?S = (if f = AudioEngineTs then Some 1 else None)"
      "reverbGain ?S = (if f = AudioEngineTs then Some 2 else None)"
      using 2 unfolding ready_def by blast+
    show ?thesis
      unfolding b m r c by (cases f) simp_all
  qed
qed

lemma init_idempotent: "init f w (init f w s) = init f w s"
proof -
  from init_ctx [of f w s] obtain c :: AudioContext where c: "ctx (init f w s) = Some c" by blast
  then have "state c = Running" by (rule init_running)
  with c show ?thesis by (rule init_ready_running)
qed

text \<open>
  C9. Mix bus frame condition. In every state the engine reaches from \<open>newEngine\<close>, by
  any sequence of \<open>startChord\<close>, \<open>stopChord\<close>, \<open>playNotes\<close> and passing time, the calls ever
  made on the mix bus (the creation of the context, and every call acting on the master
  gain, the convolver or the reverb send gain, or connecting a node to one of their
  parameters) are none while the engine is not initialised and otherwise exactly the
  calls of one initialisation, in order. For src/services/audioEngine.ts these are:
  master gain 0.3, one convolver with one buffer assignment, the buffer being the one
  impulse of twice the sample rate in samples per channel, send gain 0.35 and the four
  connections; the random numbers consumed are exactly those of the one impulse
  computation. For src/unnamed/part_001 they are master gain 0.4 and one connection:
  that file has no convolver, no send gain and no impulse. The bus fields keep the
  nodes of that initialisation. The first \<open>startChord\<close> or \<open>playNotes\<close> initialises the
  engine, and \<open>init\<close> on an engine it has initialised changes nothing.
\<close>

theorem mix_bus_created_once:
  "let S = run AudioEngineTs w xs newEngine;
       S1 = run Part001 w xs newEngine;
       r = Rep_hertz (sampleRate (newContext w))
   in (\<exists>left right.
         generateReverbImpulse (newContext w) (random w) 0 2 2 = Inr (left, right, 4 * r)
         \<and> length left = 2 * r \<and> length right = 2 * r
         \<and> filter (busCall S) (calls S) =
             (if ctx S = None then []
              else [NewAudioContext,
                    CreateGain 0, SetValue (Gain 0) 0.3,
                    CreateConvolver 1, SetBuffer 1 left right,
                    CreateGain 2, SetValue (Gain 2) 0.35,
                    Connect 0 Destination,
                    Connect 0 (Node 2),
                    Connect 2 (Node 1),
                    Connect 1 Destination]))
      \<and> masterGain S = (if ctx S = None then None else Some 0)
      \<and> reverbNode S = (if ctx S = None then None else Some 1)
      \<and> reverbGain S = (if ctx S = None then None else Some 2)
      \<and> draws S = (if ctx S = None then 0 else 4 * r)
      \<and> filter (busCall S1) (calls S1) =
          (if ctx S1 = None then []
           else [NewAudioContext, CreateGain 0, SetValue (Gain 0) 0.4, Connect 0 Destination])
      \<and> masterGain S1 = (if ctx S1 = None then None else Some 0)
      \<and> reverbNode S1 = None
      \<and> reverbGain S1 = None
      \<and> ctx (startChord f w midiNotes instrument timbre (run f w xs newEngine)) \<noteq> None
      \<and> ctx (playNotes f w midiNotes instrument timbre (run f w xs newEngine)) \<noteq> None
      \<and> init f w (init f w s) = init f w s"
proof -
  let ?S = "run AudioEngineTs w xs newEngine"
  let ?S1 = "run Part001 w xs newEngine"
  let ?r = "Rep_hertz (sampleRate (newContext w))"
  let ?left = "map (\<lambda>j. (random w (0 + 2 * j) * 2 - 1) * envelope (2 * real ?r) 2 j) [0..<2 * ?r]"
  let ?right = "map (\<lambda>j. (random w (0 + 2 * j + 1) * 2 - 1) * envelope (2 * real ?r) 2 j) [0..<2 * ?r]"
  have G: "generateReverbImpulse (newContext w) (random w) 0 2 2 = Inr (?left, ?right, 0 + 4 * ?r)"
    by (rule generateReverbImpulse_init)
  have i: "initCalls AudioEngineTs w =
     [NewAudioContext,
      CreateGain 0, SetValue (Gain 0) 0.3,
      CreateConvolver 1, SetBuffer 1 ?left ?right,
      CreateGain 2, SetValue (Gain 2) 0.35,
      Connect 0 Destination,
      Connect 0 (Node 2),
      Connect 2 (Node 1),
      Connect 1 Destination]"
    unfolding initCalls_def G by simp
  have i1: "initCalls Part001 w =
     [NewAudioContext, CreateGain 0, SetValue (Gain 0) 0.4, Connect 0 Destination]"
    by (simp add: initCalls_def)
  have b: "filter (busCall ?S) (calls ?S) = (if ctx ?S = None then [] else initCalls AudioEngineTs w)"
    using reachable_bus [of AudioEngineTs w xs] by blast
  have 1: "\<exists>left right.
         generateReverbImpulse (newContext w) (random w) 0 2 2 = Inr (left, right, 4 * ?r)
         \<and> length left = 2 * ?r \<and> length right = 2 * ?r
         \<and> filter (busCall ?S) (calls ?S) =
             (if ctx ?S = None then []
              else [NewAudioContext,
                    CreateGain 0, SetValue (Gain 0) 0.3,
                    CreateConvolver 1, SetBuffer 1 left right,
                    CreateGain 2, SetValue (Gain 2) 0.35,
                    Connect 0 Destination,
                    Connect 0 (Node 2),
                    Connect 2 (Node 1),
                    Connect 1 Destination])"
  proof (intro exI conjI)
    show "generateReverbImpulse (newContext w) (random w) 0 2 2 = Inr (?left, ?right, 4 * ?r)"
      unfolding G by simp
    show "length ?left = 2 * ?r" by simp
    show "length ?right = 2 * ?r" by simp
    show "filter (busCall ?S) (calls ?S) =
             (if ctx ?S = None then []
              else [NewAudioContext,
                    CreateGain 0, SetValue (Gain 0) 0.3,
                    CreateConvolver 1, SetBuffer 1 ?left ?right,
                    CreateGain 2, SetValue (Gain 2) 0.35,
                    Connect 0 Destination,
                    Connect 0 (Node 2),
                    Connect 2 (Node 1),
                    Connect 1 Destination])"
      unfolding b i ..
  qed
  have 2: "masterGain ?S = (if ctx ?S = None then None else Some 0)"
    "reverbNode ?S = (if ctx ?S = None then None else Some 1)"
    "reverbGain ?S = (if ctx ?S = None then None else Some 2)"
    using reachable_bus [of AudioEngineTs w xs] by simp_all
  have 3: "draws ?S = (if ctx ?S = None then 0 else 4 * ?r)"
    by (rule ts_draws_run) (simp_all add: invariant_def fresh_newEngine, simp add: newEngine_def)
  have 4: "filter (busCall ?S1) (calls ?S1) =
          (if ctx ?S1 = None then []
           else [NewAudioContext, CreateGain 0, SetValue (Gain 0) 0.4, Connect 0 Destination])"
    "masterGain ?S1 = (if ctx ?S1 = None then None else Some 0)"
    "reverbNode ?S1 = None" "reverbGain ?S1 = None"
    using reachable_bus [of Part001 w xs] unfolding i1 by simp_all
  have inv: "invariant f w (run f w xs newEngine)" by (rule invariant_reachable)
  have 5: "ctx (startChord f w midiNotes instrument timbre (run f w xs newEngine)) \<noteq> None"
    using ready_ctx [OF ready_startChord [OF inv]] by simp
  have 6: "ctx (playNotes f w midiNotes instrument timbre (run f w xs newEngine)) \<noteq> None"
    using ready_ctx [OF ready_playNotes [OF inv]] by simp
  have 7: "init f w (init f w s) = init f w s" by (rule init_idempotent)
  from 1 2 3 4 5 6 7 show ?thesis
    unfolding Let_def by blast
qed

theorem mix_bus_created_once_witness:
  "ctx (run AudioEngineTs (constBrowser 0 hz44100) [StartChord [60] Piano Grand, StopChord] newEngine) \<noteq> None
   \<and> (\<exists>left right.
        length left = 88200 \<and> length right = 88200
        \<and> filter (busCall (run AudioEngineTs (constBrowser 0 hz44100) [StartChord [60] Piano Grand, StopChord] newEngine))
            (calls (run AudioEngineTs (constBrowser 0 hz44100) [StartChord [60] Piano Grand, StopChord] newEngine)) =
           [NewAudioContext,
            CreateGain 0, SetValue (Gain 0) 0.3,
            CreateConvolver 1, SetBuffer 1 left right,
            CreateGain 2, SetValue (Gain 2) 0.35,
            Connect 0 Destination,
            Connect 0 (Node 2),
            Connect 2 (Node 1),
            Connect 1 Destination])
   \<and> draws (run AudioEngineTs (constBrowser 0 hz44100) [StartChord [60] Piano Grand, StopChord] newEngine) = 176400"
proof -
  let ?w = "constBrowser 0 hz44100"
  let ?xs = "[StartChord [60] Piano Grand, StopChord]"
  let ?S = "run AudioEngineTs ?w ?xs newEngine"
  have "invariant AudioEngineTs ?w newEngine"
    by (simp add: invariant_def fresh_newEngine)
  from ready_ctx [OF ready_startChord [OF this, of "[60]" Piano Grand]]
  obtain c :: AudioContext where c: "ctx ?S = Some c" by auto
  have r: "Rep_hertz (sampleRate (newContext ?w)) = 44100"
    by (simp add: constBrowser_def hz44100.rep_eq)
  note t = mix_bus_created_once [of ?w ?xs, unfolded Let_def r c]
  from t obtain left right where
    "length left = 2 * 44100" "length right = 2 * 44100"
    "filter (busCall ?S) (calls ?S) =
       (if Some c = None then []
        else [NewAudioContext,
            CreateGain 0, SetValue (Gain 0) 0.3,
            CreateConvolver 1, SetBuffer 1 left right,
            CreateGain 2, SetValue (Gain 2) 0.35,
            Connect 0 Destination,
            Connect 0 (Node 2),
            Connect 2 (Node 1),
            Connect 1 Destination])"
    by blast
  then have a: "\<exists>left right.
        length left = 88200 \<and> length right = 88200
        \<and> filter (busCall ?S) (calls ?S) =
           [NewAudioContext,
            CreateGain 0, SetValue (Gain 0) 0.3,
            CreateConvolver 1, SetBuffer 1 left right,
            CreateGain 2, SetValue (Gain 2) 0.35,
            Connect 0 Destination,
            Connect 0 (Node 2),
            Connect 2 (Node 1),
            Connect 1 Destination]"
    by (intro exI [of _ left] exI [of _ right]) simp
  from t have "draws ?S = (if Some c = None then 0 else 4 * 44100)" by blast
  then have d: "draws ?S = 176400" by simp
  from c a d show ?thesis by simp
qed

theorem part001_bus_has_no_reverb:
  "calls (startChord Part001 (constBrowser 0 hz44100) [] Piano Grand newEngine) =
     [NewAudioContext, CreateGain 0, SetValue (Gain 0) 0.4, Connect 0 Destination, Resume]
   \<and> masterGain (startChord Part001 (constBrowser 0 hz44100) [] Piano Grand newEngine) = Some 0
   \<and> reverbNode (startChord Part001 (constBrowser 0 hz44100) [] Piano Grand newEngine) = None
   \<and> reverbGain (startChord Part001 (constBrowser 0 hz44100) [] Piano Grand newEngine) = None
   \<and> draws (startChord Part001 (constBrowser 0 hz44100) [] Piano Grand newEngine) = 0"
  by (simp add: startChord_def init_p1_def resumeIfSuspended_def stopChord_def newEngine_def
      constBrowser_def Let_def)

subsection \<open>Determinism and release\<close>

lemma forEachNote_ts_independent:
  "forEachNote AudioEngineTs rnd master now instrument timbre midiNotes index k free =
   forEachNote AudioEngineTs rnd' master now instrument timbre midiNotes index k' free"
  by (induction midiNotes arbitrary: index k k' free) (simp_all add: Let_def)

lemma noteVoice_p1_independent:
  "\<not> (instrument = Piano \<and> timbre = HonkyTonk) \<Longrightarrow>
   noteVoice_p1 rnd k master now instrument timbre x index free =
   noteVoice_p1 rnd' k' master now instrument timbre x index free"
  by (cases instrument; cases timbre) (simp_all add: noteVoice_p1_def tone_p1_def Let_def)

lemma noteVoice_p1_draws:
  "vDraws (noteVoice_p1 rnd k master now instrument timbre x index free) =
     (if instrument = Piano \<and> timbre = HonkyTonk then 1 else 0)"
  by (cases instrument; cases timbre) (simp_all add: noteVoice_p1_def tone_p1_def Let_def)

lemma forEachNote_p1_independent:
  assumes "\<not> (instrument = Piano \<and> timbre = HonkyTonk)"
  shows "forEachNote Part001 rnd master now instrument timbre midiNotes index k free =
         forEachNote Part001 rnd' master now instrument timbre midiNotes index k' free"
proof (induction midiNotes arbitrary: index k k' free)
  case Nil
  show ?case by simp
next
  case (Cons x midiNotes)
  have v: "noteVoice_p1 rnd k master now instrument timbre x index free =
           noteVoice_p1 rnd' k' master now instrument timbre x index free"
    using assms by (rule noteVoice_p1_independent)
  show ?case
    by (simp add: Let_def v) (rule Cons.IH)
qed

lemma init_initialised:
  "ctx s = Some c \<Longrightarrow> init f w s = resumeIfSuspended s"
  by (cases f) (simp_all add: init_ts_def init_p1_def)

lemma startChord_browser_independent:
  assumes c: "ctx s = Some c"
    and v: "\<And>master now k free.
          forEachNote f (random w) master now instrument timbre midiNotes 0 k free =
          forEachNote f (random w') master now instrument timbre midiNotes 0 k free"
  shows "startChord f w midiNotes instrument timbre s = startChord f w' midiNotes instrument timbre s"
  unfolding startChord_def Let_def init_initialised [OF c] v ..

lemma detunes_append: "detunes (xs @ ys) = detunes xs @ detunes ys"
  by (induction xs rule: detunes.induct) simp_all

lemma honkyTonk_detunes:
  "detunes (vCalls (noteVoice_p1 rnd k master now Piano HonkyTonk x index free)) = [rnd k * 10 - 5]"
  by (simp add: noteVoice_p1_def tone_p1_def Let_def)

lemma honkyTonk_voice_eq:
  "noteVoice_p1 rnd k master now Piano HonkyTonk x index free =
   noteVoice_p1 rnd' k' master now Piano HonkyTonk x index free \<longleftrightarrow> rnd k = rnd' k'"
proof
  assume "noteVoice_p1 rnd k master now Piano HonkyTonk x index free =
          noteVoice_p1 rnd' k' master now Piano HonkyTonk x index free"
  then have "detunes (vCalls (noteVoice_p1 rnd k master now Piano HonkyTonk x index free)) =
             detunes (vCalls (noteVoice_p1 rnd' k' master now Piano HonkyTonk x index free))"
    by (rule arg_cong)
  then show "rnd k = rnd' k'" unfolding honkyTonk_detunes by simp
next
  assume "rnd k = rnd' k'"
  then show "noteVoice_p1 rnd k master now Piano HonkyTonk x index free =
             noteVoice_p1 rnd' k' master now Piano HonkyTonk x index free"
    by (simp add: noteVoice_p1_def tone_p1_def Let_def)
qed

lemma honkyTonk_forEach_detunes:
  "detunes (concat (map vCalls
      (forEachNote Part001 rnd master now Piano HonkyTonk midiNotes index k free))) =
   map (\<lambda>j. rnd (k + j) * 10 - 5) [0..<length midiNotes]"
proof (induction midiNotes arbitrary: index k free)
  case Nil
  show ?case by simp
next
  case (Cons x midiNotes)
  have d: "vDraws (noteVoice_p1 rnd k master now Piano HonkyTonk x index free) = 1"
    by (simp add: noteVoice_p1_draws)
  have "detunes (concat (map vCalls
      (forEachNote Part001 rnd master now Piano HonkyTonk (x # midiNotes) index k free))) =
    (rnd k * 10 - 5) # map (\<lambda>j. rnd (k + 1 + j) * 10 - 5) [0..<length midiNotes]"
    by (simp add: Let_def detunes_append honkyTonk_detunes d Cons.IH)
  also have "\<dots> = map (\<lambda>j. rnd (k + j) * 10 - 5) [0..<length (x # midiNotes)]"
    by (simp add: map_upt_Suc del: upt_Suc)
  finally show ?case .
qed

lemma honkyTonk_forEach_cong:
  assumes "\<And>j. j < length midiNotes \<Longrightarrow> rnd (k + j) = rnd' (k + j)"
  shows "forEachNote Part001 rnd master now Piano HonkyTonk midiNotes index k free =
         forEachNote Part001 rnd' master now Piano HonkyTonk midiNotes index k free"
  using assms
proof (induction midiNotes arbitrary: index k free)
  case Nil
  show ?case by simp
next
  case (Cons x midiNotes)
  from Cons.prems [of 0] have "rnd k = rnd' k" by simp
  then have v: "noteVoice_p1 rnd k master now Piano HonkyTonk x index free =
                noteVoice_p1 rnd' k master now Piano HonkyTonk x index free"
    by (simp only: honkyTonk_voice_eq)
  have d: "vDraws (noteVoice_p1 rnd' k master now Piano HonkyTonk x index free) = 1"
    by (simp add: noteVoice_p1_draws)
  have "rnd (k + 1 + j) = rnd' (k + 1 + j)" if "j < length midiNotes" for j
    using Cons.prems [of "Suc j"] that by simp
  then have "forEachNote Part001 rnd master now Piano HonkyTonk midiNotes (index + 1) (k + 1)
          (free + vNodes (noteVoice_p1 rnd' k master now Piano HonkyTonk x index free)) =
        forEachNote Part001 rnd' master now Piano HonkyTonk midiNotes (index + 1) (k + 1)
          (free + vNodes (noteVoice_p1 rnd' k master now Piano HonkyTonk x index free))"
    by (rule Cons.IH)
  then show ?case
    by (simp add: Let_def v d)
qed

lemma honkyTonk_forEach_eq:
  "forEachNote Part001 rnd master now Piano HonkyTonk midiNotes index k free =
   forEachNote Part001 rnd' master now Piano HonkyTonk midiNotes index k free
   \<longleftrightarrow> (\<forall>j < length midiNotes. rnd (k + j) = rnd' (k + j))"
proof
  assume "forEachNote Part001 rnd master now Piano HonkyTonk midiNotes index k free =
          forEachNote Part001 rnd' master now Piano HonkyTonk midiNotes index k free"
  then have "detunes (concat (map vCalls
                (forEachNote Part001 rnd master now Piano HonkyTonk midiNotes index k free))) =
             detunes (concat (map vCalls
                (forEachNote Part001 rnd' master now Piano HonkyTonk midiNotes index k free)))"
    by (simp only:)
  then have "map (\<lambda>j. rnd (k + j) * 10 - 5) [0..<length midiNotes] =
             map (\<lambda>j. rnd' (k + j) * 10 - 5) [0..<length midiNotes]"
    unfolding honkyTonk_forEach_detunes .
  then show "\<forall>j < length midiNotes. rnd (k + j) = rnd' (k + j)"
    by (simp add: map_eq_conv)
next
  assume "\<forall>j < length midiNotes. rnd (k + j) = rnd' (k + j)"
  then show "forEachNote Part001 rnd master now Piano HonkyTonk midiNotes index k free =
             forEachNote Part001 rnd' master now Piano HonkyTonk midiNotes index k free"
    by (intro honkyTonk_forEach_cong) blast
qed

lemma honkyTonk_startChord_eq:
  assumes c: "ctx s = Some c" and m: "masterGain s = Some m"
  shows "startChord Part001 w midiNotes Piano HonkyTonk s =
         startChord Part001 w' midiNotes Piano HonkyTonk s
         \<longleftrightarrow> (\<forall>j < length midiNotes. random w (draws s + j) = random w' (draws s + j))"
proof -
  let ?s1 = "stopChord (resumeIfSuspended s)"
  let ?c1 = "c\<lparr> state := Running \<rparr>"
  have c1: "ctx ?s1 = Some ?c1" by (simp add: resumeIfSuspended_ctx c)
  have m1: "masterGain ?s1 = Some m" by (simp add: m)
  have e: "startChord Part001 b midiNotes Piano HonkyTonk s =
      fold addVoice
        (forEachNote Part001 (random b) m (currentTime c) Piano HonkyTonk midiNotes 0
           (draws s) (nextNode s))
        ?s1" for b
    unfolding startChord_def Let_def init_initialised [OF c] c1 m1 by simp
  let ?vs = "forEachNote Part001 (random w) m (currentTime c) Piano HonkyTonk midiNotes 0
           (draws s) (nextNode s)"
  let ?vs' = "forEachNote Part001 (random w') m (currentTime c) Piano HonkyTonk midiNotes 0
           (draws s) (nextNode s)"
  show ?thesis
  proof
    assume "startChord Part001 w midiNotes Piano HonkyTonk s =
            startChord Part001 w' midiNotes Piano HonkyTonk s"
    then have "calls (fold addVoice ?vs ?s1) = calls (fold addVoice ?vs' ?s1)"
      unfolding e by (rule arg_cong)
    then have "concat (map vCalls ?vs) = concat (map vCalls ?vs')" by simp
    then have "detunes (concat (map vCalls ?vs)) = detunes (concat (map vCalls ?vs'))"
      by (rule arg_cong)
    then have "map (\<lambda>j. random w (draws s + j) * 10 - 5) [0..<length midiNotes] =
               map (\<lambda>j. random w' (draws s + j) * 10 - 5) [0..<length midiNotes]"
      unfolding honkyTonk_forEach_detunes .
    then show "\<forall>j < length midiNotes. random w (draws s + j) = random w' (draws s + j)"
      by (simp add: map_eq_conv)
  next
    assume "\<forall>j < length midiNotes. random w (draws s + j) = random w' (draws s + j)"
    then have "?vs = ?vs'" by (simp only: honkyTonk_forEach_eq)
    then show "startChord Part001 w midiNotes Piano HonkyTonk s =
               startChord Part001 w' midiNotes Piano HonkyTonk s"
      unfolding e by (rule arg_cong)
  qed
qed

text \<open>
  C10. Determinism of voice construction. In src/services/audioEngine.ts
  the voices built for a chord do not depend on the random source: on an initialised
  engine two \<open>startChord\<close> calls with the same arguments on the same state give the same
  state, whatever \<^verbatim>\<open>Math.random()\<close> returns. In src/unnamed/part_001 the same holds for
  every instrument and timbre except Piano with HonkyTonk, whose voice sets the detune
  of its oscillator to \<open>random * 10 - 5\<close>, a value in \<open>[-5, 5)\<close>: two such voices are the
  same exactly when their random results are, the voices of two chords are the same
  exactly when the random results of all their notes are, and two \<open>startChord\<close> calls
  on the same initialised engine give the same state exactly when the random results
  of all the notes are the same.
\<close>

theorem voice_construction_determinism:
  "(ctx s = Some c \<longrightarrow>
      startChord AudioEngineTs w midiNotes instrument timbre s =
      startChord AudioEngineTs w' midiNotes instrument timbre s)
   \<and> forEachNote AudioEngineTs rnd master now instrument timbre midiNotes index k free =
     forEachNote AudioEngineTs rnd' master now instrument timbre midiNotes index k' free
   \<and> (ctx s = Some c \<longrightarrow> \<not> (instrument = Piano \<and> timbre = HonkyTonk) \<longrightarrow>
        startChord Part001 w midiNotes instrument timbre s =
        startChord Part001 w' midiNotes instrument timbre s)
   \<and> (\<not> (instrument = Piano \<and> timbre = HonkyTonk) \<longrightarrow>
        forEachNote Part001 rnd master now instrument timbre midiNotes index k free =
        forEachNote Part001 rnd' master now instrument timbre midiNotes index k' free)
   \<and> SetValue (Detune free) (rnd k * 10 - 5)
        \<in> set (vCalls (noteVoice_p1 rnd k master now Piano HonkyTonk x index free))
   \<and> (noteVoice_p1 rnd k master now Piano HonkyTonk x index free =
      noteVoice_p1 rnd' k' master now Piano HonkyTonk x index free
      \<longleftrightarrow> rnd k = rnd' k')
   \<and> (forEachNote Part001 rnd master now Piano HonkyTonk midiNotes index k free =
      forEachNote Part001 rnd' master now Piano HonkyTonk midiNotes index k free
      \<longleftrightarrow> (\<forall>j < length midiNotes. rnd (k + j) = rnd' (k + j)))
   \<and> (ctx s = Some c \<and> masterGain s = Some m \<longrightarrow>
        (startChord Part001 w midiNotes Piano HonkyTonk s =
         startChord Part001 w' midiNotes Piano HonkyTonk s
         \<longleftrightarrow> (\<forall>j < length midiNotes. random w (draws s + j) = random w' (draws s + j))))
   \<and> (0 \<le> rnd k \<and> rnd k < 1 \<longrightarrow> - 5 \<le> rnd k * 10 - 5 \<and> rnd k * 10 - 5 < 5)"
proof -
  have 1: "startChord AudioEngineTs w midiNotes instrument timbre s =
      startChord AudioEngineTs w' midiNotes instrument timbre s" if "ctx s = Some c"
    using that by (rule startChord_browser_independent) (rule forEachNote_ts_independent)
  have 2: "forEachNote AudioEngineTs rnd master now instrument timbre midiNotes index k free =
     forEachNote AudioEngineTs rnd' master now instrument timbre midiNotes index k' free"
    by (rule forEachNote_ts_independent)
  have 3: "startChord Part001 w midiNotes instrument timbre s =
        startChord Part001 w' midiNotes instrument timbre s"
    if "ctx s = Some c" "\<not> (instrument = Piano \<and> timbre = HonkyTonk)"
    using that(1) by (rule startChord_browser_independent) (rule forEachNote_p1_independent [OF that(2)])
  have 4: "forEachNote Part001 rnd master now instrument timbre midiNotes index k free =
        forEachNote Part001 rnd' master now instrument timbre midiNotes index k' free"
    if "\<not> (instrument = Piano \<and> timbre = HonkyTonk)"
    using that by (rule forEachNote_p1_independent)
  have 5: "SetValue (Detune free) (rnd k * 10 - 5)
        \<in> set (vCalls (noteVoice_p1 rnd k master now Piano HonkyTonk x index free))"
    by (simp add: noteVoice_p1_def tone_p1_def Let_def)
  have 6: "noteVoice_p1 rnd k master now Piano HonkyTonk x index free =
        noteVoice_p1 rnd' k' master now Piano HonkyTonk x index free \<longleftrightarrow> rnd k = rnd' k'"
    by (rule honkyTonk_voice_eq)
  have 7: "forEachNote Part001 rnd master now Piano HonkyTonk midiNotes index k free =
      forEachNote Part001 rnd' master now Piano HonkyTonk midiNotes index k free
      \<longleftrightarrow> (\<forall>j < length midiNotes. rnd (k + j) = rnd' (k + j))"
    by (rule honkyTonk_forEach_eq)
  have 8: "startChord Part001 w midiNotes Piano HonkyTonk s =
         startChord Part001 w' midiNotes Piano HonkyTonk s
         \<longleftrightarrow> (\<forall>j < length midiNotes. random w (draws s + j) = random w' (draws s + j))"
    if "ctx s = Some c \<and> masterGain s = Some m"
    using that by (intro honkyTonk_startChord_eq) blast+
  have 9: "0 \<le> rnd k \<and> rnd k < 1 \<longrightarrow> - 5 \<le> rnd k * 10 - 5 \<and> rnd k * 10 - 5 < 5"
    by simp
  from 1 have i1: "ctx s = Some c \<longrightarrow>
      startChord AudioEngineTs w midiNotes instrument timbre s =
      startChord AudioEngineTs w' midiNotes instrument timbre s" ..
  from 3 have i3: "ctx s = Some c \<longrightarrow> \<not> (instrument = Piano \<and> timbre = HonkyTonk) \<longrightarrow>
        startChord Part001 w midiNotes instrument timbre s =
        startChord Part001 w' midiNotes instrument timbre s"
    by (intro impI)
  from 4 have i4: "\<not> (instrument = Piano \<and> timbre = HonkyTonk) \<longrightarrow>
        forEachNote Part001 rnd master now instrument timbre midiNotes index k free =
        forEachNote Part001 rnd' master now instrument timbre midiNotes index k' free" ..
  from 8 have i8: "ctx s = Some c \<and> masterGain s = Some m \<longrightarrow>
        (startChord Part001 w midiNotes Piano HonkyTonk s =
         startChord Part001 w' midiNotes Piano HonkyTonk s
         \<longleftrightarrow> (\<forall>j < length midiNotes. random w (draws s + j) = random w' (draws s + j)))" ..
  show ?thesis
    by (intro conjI) (rule i1 2 i3 i4 5 6 7 i8 9)+
qed

theorem voice_construction_determinism_witness:
  "ctx (init Part001 (constBrowser 0 hz44100) newEngine) =
      Some \<lparr> state = Running, currentTime = 0, sampleRate = hz44100 \<rparr>
   \<and> masterGain (init Part001 (constBrowser 0 hz44100) newEngine) = Some 0
   \<and> \<not> (Guitar = Piano \<and> Grand = HonkyTonk)
   \<and> startChord Part001 (constBrowser 0 hz44100) [60] Guitar Grand
        (init Part001 (constBrowser 0 hz44100) newEngine) =
      startChord Part001 (constBrowser (1 / 2) hz44100) [60] Guitar Grand
        (init Part001 (constBrowser 0 hz44100) newEngine)
   \<and> startChord Part001 (constBrowser 0 hz44100) [60] Piano HonkyTonk
        (init Part001 (constBrowser 0 hz44100) newEngine) \<noteq>
      startChord Part001 (constBrowser (1 / 2) hz44100) [60] Piano HonkyTonk
        (init Part001 (constBrowser 0 hz44100) newEngine)"
proof -
  let ?s = "init Part001 (constBrowser 0 hz44100) newEngine"
  let ?c = "\<lparr> state = Running, currentTime = 0, sampleRate = hz44100 \<rparr>"
  have c: "ctx ?s = Some ?c"
    by (simp add: init_p1_def newEngine_def constBrowser_def resumeIfSuspended_def)
  have m: "masterGain ?s = Some 0"
    by (simp add: init_p1_def newEngine_def)
  have n: "\<not> (Guitar = Piano \<and> Grand = HonkyTonk)" by simp
  note t = voice_construction_determinism
    [where s = ?s and c = ?c and w = "constBrowser 0 hz44100" and midiNotes = "[60]"
       and instrument = Guitar and timbre = Grand and w' = "constBrowser (1 / 2) hz44100" and m = 0]
  from t c n
  have a: "startChord Part001 (constBrowser 0 hz44100) [60] Guitar Grand ?s =
      startChord Part001 (constBrowser (1 / 2) hz44100) [60] Guitar Grand ?s"
    by blast
  from t c m
  have "startChord Part001 (constBrowser 0 hz44100) [60] Piano HonkyTonk ?s =
        startChord Part001 (constBrowser (1 / 2) hz44100) [60] Piano HonkyTonk ?s
        \<longleftrightarrow> (\<forall>j < length [60::int].
              random (constBrowser 0 hz44100) (draws ?s + j) =
              random (constBrowser (1 / 2) hz44100) (draws ?s + j))"
    by blast
  then have b: "startChord Part001 (constBrowser 0 hz44100) [60] Piano HonkyTonk ?s \<noteq>
        startChord Part001 (constBrowser (1 / 2) hz44100) [60] Piano HonkyTonk ?s"
    by (simp add: constBrowser_def)
  from c m n a b show ?thesis by blast
qed

theorem honkyTonk_runs_differ:
  "calls (startChord Part001 (constBrowser 0 hz44100) [60] Piano HonkyTonk newEngine)
   \<noteq> calls (startChord Part001 (constBrowser (1 / 2) hz44100) [60] Piano HonkyTonk newEngine)"
  by (simp add: startChord_def init_p1_def resumeIfSuspended_def stopChord_def newEngine_def
      constBrowser_def noteVoice_p1_def tone_p1_def addVoice_def Let_def)

text \<open>
  C8. Release and the vibrato LFO in src/unnamed/part_001: one Violin note is started,
  the chord is stopped, and ten seconds pass. The note's oscillator (node 1) is stopped
  0.35 s after the stop request; the calls ever made on the LFO (node 3) are its
  creation, its settings, its connection and its start: it is never stopped.
\<close>

theorem violin_lfo_never_stopped:
  "callsOn 3 (calls (run Part001 (constBrowser 0 hz44100)
       [StartChord [60] Violin Grand, StopChord, Elapse 10000] newEngine)) =
     [CreateOscillator 3, SetOscillatorType 3 Sine, SetValue (Frequency 3) 6,
      Connect 3 (Node 4), Start 3 0]
   \<and> callsOn 1 (calls (run Part001 (constBrowser 0 hz44100)
       [StartChord [60] Violin Grand, StopChord, Elapse 10000] newEngine)) =
     [CreateOscillator 1, SetValue (Frequency 1) (midiToFreq 60), SetOscillatorType 1 Sawtooth,
      Connect 1 (Node 2), Start 1 0, Stop 1 0.35]
   \<and> activeNodes (run Part001 (constBrowser 0 hz44100)
       [StartChord [60] Violin Grand, StopChord, Elapse 10000] newEngine) = []"
  by (simp add: startChord_def init_p1_def resumeIfSuspended_def stopChord_def newEngine_def
      constBrowser_def noteVoice_p1_def tone_p1_def addVoice_def Let_def callsOn_def
      elapse_def setClock_def stagger_p1_def)

end
